theory Spec2Isabelle
  imports Complex_Main
begin

section \<open>Python values used by the pipeline\<close>

text \<open>
  A Python \<open>str\<close> is a sequence of code points; the model uses \<open>string\<close>, whose
  characters stand for the code points below 256. An exception is a value carrying its
  class name and the message that \<open>str(e)\<close> returns.
\<close>

datatype exn = Exn (exn_class: string) (exn_msg: string)

definition isspace :: "char \<Rightarrow> bool" where
  \<comment> \<open>the code points below 256 that \<open>str.isspace\<close> and the regex class \<open>\\s\<close> accept\<close>
  "isspace c =
     (let n = (of_char c :: nat)
      in (9 \<le> n \<and> n \<le> 13) \<or> (28 \<le> n \<and> n \<le> 32) \<or> n = 133 \<or> n = 160)"

definition strip :: "string \<Rightarrow> string" where
  \<comment> \<open>\<open>str.strip()\<close>\<close>
  "strip s = rev (dropWhile isspace (rev (dropWhile isspace s)))"

fun findall_scan :: "string \<Rightarrow> string \<Rightarrow> string list" where
  \<comment> \<open>the scan of \<open>re.findall(r'\\S+', text)\<close>; the second argument is the match in progress\<close>
  "findall_scan [] w = (if w = [] then [] else [w])"
| "findall_scan (c # cs) w =
     (if isspace c then (if w = [] then findall_scan cs [] else w # findall_scan cs [])
      else findall_scan cs (w @ [c]))"

definition findall_nonspace :: "string \<Rightarrow> string list" where
  "findall_nonspace s = findall_scan s []"

fun join :: "string \<Rightarrow> string list \<Rightarrow> string" where
  \<comment> \<open>\<open>sep.join(ws)\<close>\<close>
  "join sep [] = []"
| "join sep [w] = w"
| "join sep (w # ws) = w @ sep @ join sep ws"

definition slice_bound :: "int \<Rightarrow> nat \<Rightarrow> nat" where
  \<comment> \<open>how a slice bound is read: a negative bound counts from the end, and both are clipped\<close>
  "slice_bound j n = (if j < 0 then nat (max 0 (j + int n)) else min (nat j) n)"

definition py_slice :: "'a list \<Rightarrow> int \<Rightarrow> int \<Rightarrow> 'a list" where
  \<comment> \<open>\<open>xs[i:j]\<close>\<close>
  "py_slice xs i j =
     (let a = slice_bound i (length xs); b = slice_bound j (length xs)
      in take (b - a) (drop a xs))"

section \<open>PDFProcessor\<close>

record chunk =
  chunk_text :: string
  chunk_id :: int
  start_word :: int
  end_word :: int
  word_count :: int
  char_count :: int

record pdf_processor =
  chunk_size :: int
  overlap :: int
  use_pymupdf :: bool

definition window_chunk :: "string list \<Rightarrow> int \<Rightarrow> int \<Rightarrow> nat \<Rightarrow> chunk" where
  \<comment> \<open>the dictionary built in one iteration of the loop of \<open>create_chunks\<close>\<close>
  "window_chunk words cs i k =
     (let chunk_words = py_slice words i (i + cs);
          txt = join '' '' chunk_words
      in \<lparr>chunk_text = txt, chunk_id = int k, start_word = i,
          end_word = min (i + cs) (int (length words)),
          word_count = int (length chunk_words), char_count = int (length txt)\<rparr>)"

function chunk_loop :: "string list \<Rightarrow> int \<Rightarrow> int \<Rightarrow> int \<Rightarrow> chunk list \<Rightarrow> chunk list" where
  \<comment> \<open>\<open>for i in range(i, len(words), step)\<close> with its \<open>break\<close>; a step below 1 is an empty range here\<close>
  "chunk_loop words cs step i chunks =
     (if step \<le> 0 \<or> int (length words) \<le> i then chunks
      else if i + cs \<ge> int (length words)
        then chunks @ [window_chunk words cs i (length chunks)]
        else chunk_loop words cs step (i + step)
               (chunks @ [window_chunk words cs i (length chunks)]))"
  by pat_completeness auto
termination
  by (relation "measure (\<lambda>(words, cs, step, i, chunks). nat (int (length words) - i))") auto

declare chunk_loop.simps [simp del]

definition create_chunks :: "pdf_processor \<Rightarrow> string \<Rightarrow> exn + chunk list" where
  "create_chunks p text_in =
     (if strip text_in = [] then Inr []
      else let words = findall_nonspace text_in
        in if int (length words) \<le> chunk_size p
           then Inr [\<lparr>chunk_text = text_in, chunk_id = 0, start_word = 0,
                      end_word = int (length words), word_count = int (length words),
                      char_count = int (length text_in)\<rparr>]
           else if chunk_size p - overlap p = 0
             then Inl (Exn ''ValueError'' ''range() arg 3 must not be zero'')
             else Inr (chunk_loop words (chunk_size p) (chunk_size p - overlap p) 0 []))"


subsection \<open>Text extraction and cleaning\<close>

text \<open>
  The file system and the two PDF libraries are outside the repository: the environment
  record \<open>env\<close> (declared with the vector store below) gives, for a path, whether it
  exists and what opening it with PyMuPDF or PyPDF2 yields: an exception, or the pages,
  each of which is the page text or the exception that reading that page raises.
\<close>

type_synonym pages = "(exn + string) list"

definition newline :: char where
  "newline = CHR 0x0A"

definition digit_char :: "nat \<Rightarrow> char" where
  "digit_char n = char_of (48 + n)"

function str_nat :: "nat \<Rightarrow> string" where
  \<comment> \<open>\<open>str(n)\<close> for a non-negative integer\<close>
  "str_nat n = (if n < 10 then [digit_char n] else str_nat (n div 10) @ [digit_char (n mod 10)])"
  by pat_completeness auto
termination
  by (relation "measure id") auto

declare str_nat.simps [simp del]

fun extract_pages :: "pages \<Rightarrow> nat \<Rightarrow> string \<Rightarrow> string" where
  \<comment> \<open>the page loop shared by both extractors: a page that raises or is blank is skipped\<close>
  "extract_pages [] page_num txt = txt"
| "extract_pages (pg # pgs) page_num txt =
     (case pg of
        Inl e \<Rightarrow> extract_pages pgs (Suc page_num) txt
      | Inr page_text \<Rightarrow>
          if strip page_text \<noteq> []
          then extract_pages pgs (Suc page_num)
                 (txt @ [newline] @ ''--- Page '' @ str_nat (page_num + 1) @ '' ---'' @ [newline]
                    @ page_text)
          else extract_pages pgs (Suc page_num) txt)"

definition extract_text_from_pdf_with :: "(string \<Rightarrow> exn + pages) \<Rightarrow> string \<Rightarrow> exn + string" where
  \<comment> \<open>\<open>extract_text_from_pdf_pymupdf\<close> and \<open>extract_text_from_pdf_pypdf2\<close>, by the opener\<close>
  "extract_text_from_pdf_with opener pdf_path =
     (case opener pdf_path of
        Inl e \<Rightarrow> Inl e
      | Inr pgs \<Rightarrow> Inr (extract_pages pgs 0 []))"

fun squeeze :: "(char \<Rightarrow> bool) \<Rightarrow> char \<Rightarrow> bool \<Rightarrow> string \<Rightarrow> string" where
  \<comment> \<open>\<open>re.sub\<close> of every maximal run of characters in a class by one character; the flag
      says that a run is in progress\<close>
  "squeeze P r in_run [] = []"
| "squeeze P r in_run (c # cs) =
     (if P c then (if in_run then squeeze P r True cs else r # squeeze P r True cs)
      else c # squeeze P r False cs)"

definition is_control :: "char \<Rightarrow> bool" where
  \<comment> \<open>the class \<open>[\\x00-\\x08\\x0b\\x0c\\x0e-\\x1f\\x7f-\\x9f]\<close>\<close>
  "is_control c =
     (let n = (of_char c :: nat)
      in n \<le> 8 \<or> n = 11 \<or> n = 12 \<or> (14 \<le> n \<and> n \<le> 31) \<or> (127 \<le> n \<and> n \<le> 159))"

fun split_on :: "char \<Rightarrow> string \<Rightarrow> string list" where
  \<comment> \<open>\<open>text.split(sep)\<close> for a one-character separator\<close>
  "split_on sep [] = [[]]"
| "split_on sep (c # cs) =
     (if c = sep then [] # split_on sep cs
      else (case split_on sep cs of [] \<Rightarrow> [[c]] | l # ls \<Rightarrow> (c # l) # ls))"

definition clean_text :: "string \<Rightarrow> string" where
  "clean_text text_in =
     (if strip text_in = [] then []
      else let t1 = squeeze (\<lambda>c. c = newline) newline False text_in;
               t2 = squeeze (\<lambda>c. c = CHR '' '' \<or> c = CHR 0x09) CHR '' '' False t1;
               t3 = filter (\<lambda>c. \<not> is_control c) t2;
               lines = split_on newline t3;
               cleaned_lines = filter (\<lambda>line. 3 \<le> length line) (map strip lines)
           in join [newline] cleaned_lines)"

record pdf_result =
  raw_text :: string
  cleaned_text :: string
  result_chunks :: "chunk list"
  success :: bool

section \<open>VectorStore\<close>

text \<open>
  Chunk dictionaries are mutable objects. They live in a store, a list of chunk values in
  which an address is a position and allocation appends; the vector store and the search
  results hold addresses.
\<close>

type_synonym addr = nat
type_synonym heap = "chunk list"
type_synonym vec = "real list"

text \<open>
  A numpy array of floats as the code meets it: of one dimension, or of two, with its
  number of columns and its rows (each of that many entries). The empty list of rows with
  \<open>d\<close> columns is the array of shape \<open>(0, d)\<close>; the empty array of one dimension has
  shape \<open>(0,)\<close>.
\<close>

datatype ndarray = Array1 "real list" | Array2 nat "vec list"

definition alloc_all :: "heap \<Rightarrow> chunk list \<Rightarrow> addr list \<times> heap" where
  \<comment> \<open>fresh objects for a list of dictionaries\<close>
  "alloc_all h cs = ([length h ..< length h + length cs], h @ cs)"

record faiss_index =
  index_d :: nat
  index_vectors :: "vec list"

definition ntotal :: "faiss_index \<Rightarrow> nat" where
  "ntotal ix = length (index_vectors ix)"

record metadata =
  md_chunks :: "chunk list"
  md_model_name :: string
  md_dimension :: "nat option"

record vector_store =
  model_name :: string
  embedding_model :: "string option"
  index :: "faiss_index option"
  chunks :: "addr list"
  dimension :: "nat option"

text \<open>
  The external collaborators. \<open>st_load\<close> is \<open>SentenceTransformer(name)\<close> followed by
  \<open>get_sentence_embedding_dimension()\<close>; \<open>st_encode\<close> is \<open>encode\<close> of the model loaded
  under a name, which answers an array; \<open>faiss_search\<close> is the search of an
  \<open>IndexFlatIP\<close> for the rows of a query array of its dimension, which answers one row
  of (score, id) pairs per query vector; \<open>read_index\<close> and \<open>read_pickle\<close> are the two files
  of a saved index (\<open>None\<close> when the file does not exist); \<open>pipeline_load\<close> and
  \<open>pipeline_call\<close> are the text generation pipeline, whose call answers the list of
  generated texts.
\<close>

record env =
  path_exists :: "string \<Rightarrow> bool"
  fitz_open :: "string \<Rightarrow> exn + pages"
  pypdf2_open :: "string \<Rightarrow> exn + pages"
  st_load :: "string \<Rightarrow> exn + nat"
  st_encode :: "string \<Rightarrow> string list \<Rightarrow> exn + ndarray"
  faiss_search :: "faiss_index \<Rightarrow> vec list \<Rightarrow> int \<Rightarrow> exn + (real \<times> int) list list"
  read_index :: "string \<Rightarrow> (exn + faiss_index) option"
  read_pickle :: "string \<Rightarrow> (exn + metadata) option"
  pipeline_load :: "string \<Rightarrow> string \<Rightarrow> exn + unit"
  pipeline_call :: "string \<Rightarrow> string \<Rightarrow> exn + string list"

definition extract_text_from_pdf :: "pdf_processor \<Rightarrow> env \<Rightarrow> string \<Rightarrow> exn + string" where
  "extract_text_from_pdf p ev pdf_path =
     (if \<not> path_exists ev pdf_path
      then Inl (Exn ''FileNotFoundError''
                  (''Le fichier '' @ pdf_path @ '' n'' @ [CHR 0x27] @ ''existe pas''))
      else if use_pymupdf p
        then (case extract_text_from_pdf_with (fitz_open ev) pdf_path of
                Inr txt \<Rightarrow> Inr txt
              | Inl e \<Rightarrow> extract_text_from_pdf_with (pypdf2_open ev) pdf_path)
        else extract_text_from_pdf_with (pypdf2_open ev) pdf_path)"

definition process_pdf :: "pdf_processor \<Rightarrow> env \<Rightarrow> string \<Rightarrow> exn + pdf_result" where
  \<comment> \<open>\<open>get_pdf_info\<close> catches every exception and its result is only logged and passed on\<close>
  "process_pdf p ev pdf_path =
     (case extract_text_from_pdf p ev pdf_path of
        Inl e \<Rightarrow> Inl e
      | Inr raw \<Rightarrow>
          if strip raw = []
          then Inr \<lparr>raw_text = raw, cleaned_text = [], result_chunks = [], success = False\<rparr>
          else (case create_chunks p (clean_text raw) of
                  Inl e \<Rightarrow> Inl e
                | Inr cs \<Rightarrow> Inr \<lparr>raw_text = raw, cleaned_text = clean_text raw,
                                result_chunks = cs, success = True\<rparr>))"


subsection \<open>Embeddings and index construction\<close>

definition load_embedding_model :: "env \<Rightarrow> vector_store \<Rightarrow> (exn + unit) \<times> vector_store" where
  "load_embedding_model ev vs =
     (case embedding_model vs of
        None \<Rightarrow>
          (case st_load ev (model_name vs) of
             Inl e \<Rightarrow> (Inl e, vs)
           | Inr d \<Rightarrow> (Inr (), vs\<lparr>embedding_model := Some (model_name vs), dimension := Some d\<rparr>))
      | Some m \<Rightarrow> (Inr (), vs))"

definition encode_with :: "env \<Rightarrow> vector_store \<Rightarrow> string list \<Rightarrow> exn + ndarray" where
  \<comment> \<open>\<open>self.embedding_model.encode(texts, ...)\<close>\<close>
  "encode_with ev vs texts =
     (case embedding_model vs of
        None \<Rightarrow> Inl (Exn ''AttributeError'' ''NoneType object has no attribute encode'')
      | Some m \<Rightarrow> st_encode ev m texts)"

definition create_embeddings ::
  "env \<Rightarrow> string list \<Rightarrow> vector_store \<Rightarrow> (exn + ndarray) \<times> vector_store" where
  "create_embeddings ev texts vs =
     (case load_embedding_model ev vs of
        (Inl e, vs1) \<Rightarrow> (Inl e, vs1)
      | (Inr u, vs1) \<Rightarrow> (encode_with ev vs1 texts, vs1))"

definition normalize_L2 :: "vec \<Rightarrow> vec" where
  \<comment> \<open>what \<open>faiss.normalize_L2\<close> does to one row; a zero row is left as it is\<close>
  "normalize_L2 v =
     (let n = sqrt (sum_list (map (\<lambda>x. x * x) v))
      in if n = 0 then v else map (\<lambda>x. x / n) v)"

fun normalize_L2_array :: "ndarray \<Rightarrow> exn + ndarray" where
  \<comment> \<open>\<open>faiss.normalize_L2(x)\<close>, which reads \<open>x.shape[1]\<close> and \<open>x.shape[0]\<close>\<close>
  "normalize_L2_array (Array1 xs) = Inl (Exn ''IndexError'' ''tuple index out of range'')"
| "normalize_L2_array (Array2 d rows) = Inr (Array2 d (map normalize_L2 rows))"

fun index_add :: "faiss_index \<Rightarrow> ndarray \<Rightarrow> exn + faiss_index" where
  \<comment> \<open>\<open>index.add(x)\<close>, which unpacks \<open>n, d = x.shape\<close> and asserts \<open>d == self.d\<close>\<close>
  "index_add ix (Array1 xs) =
     Inl (Exn ''ValueError'' ''not enough values to unpack (expected 2, got 1)'')"
| "index_add ix (Array2 d rows) =
     (if d = index_d ix then Inr (ix\<lparr>index_vectors := index_vectors ix @ rows\<rparr>)
      else Inl (Exn ''AssertionError'' []))"

definition build_index ::
  "env \<Rightarrow> heap \<Rightarrow> addr list \<Rightarrow> vector_store \<Rightarrow> (exn + unit) \<times> vector_store" where
  \<comment> \<open>\<open>self.index\<close> is assigned the new, empty index before the embeddings are normalised
      and added\<close>
  "build_index ev h cs vs =
     (case create_embeddings ev (map (\<lambda>a. chunk_text (h ! a)) cs) (vs\<lparr>chunks := cs\<rparr>) of
        (Inl e, vs1) \<Rightarrow> (Inl e, vs1)
      | (Inr embeddings, vs1) \<Rightarrow>
          (case dimension vs1 of
             None \<Rightarrow> (Inl (Exn ''TypeError'' ''dimension is None''), vs1)
           | Some d \<Rightarrow>
               (case normalize_L2_array embeddings of
                  Inl e \<Rightarrow> (Inl e, vs1\<lparr>index := Some \<lparr>index_d = d, index_vectors = []\<rparr>\<rparr>)
                | Inr normalized \<Rightarrow>
                    (case index_add \<lparr>index_d = d, index_vectors = []\<rparr> normalized of
                       Inl e \<Rightarrow>
                         (Inl e, vs1\<lparr>index := Some \<lparr>index_d = d, index_vectors = []\<rparr>\<rparr>)
                     | Inr ix \<Rightarrow> (Inr (), vs1\<lparr>index := Some ix\<rparr>)))))"

subsection \<open>Search\<close>

definition py_index :: "'a list \<Rightarrow> int \<Rightarrow> exn + 'a" where
  \<comment> \<open>\<open>xs[i]\<close>: an index from \<open>-len(xs)\<close> to \<open>-1\<close> counts from the end\<close>
  "py_index xs i =
     (if 0 \<le> i \<and> i < int (length xs) then Inr (xs ! nat i)
      else if i < 0 \<and> - int (length xs) \<le> i then Inr (xs ! nat (i + int (length xs)))
      else Inl (Exn ''IndexError'' ''list index out of range''))"

fun collect_results ::
  "heap \<Rightarrow> addr list \<Rightarrow> (real \<times> int) list \<Rightarrow> (addr \<times> real) list
     \<Rightarrow> (exn + (addr \<times> real) list) \<times> heap" where
  \<comment> \<open>the formatting loop of \<open>search\<close>; \<open>.copy()\<close> allocates a new dictionary with the
      same items\<close>
  "collect_results h cs [] results = (Inr results, h)"
| "collect_results h cs ((score, idx) # rows) results =
     (if idx \<noteq> - 1
      then (case py_index cs idx of
              Inl e \<Rightarrow> (Inl e, h)
            | Inr a \<Rightarrow> collect_results (h @ [h ! a]) cs rows (results @ [(length h, score)]))
      else collect_results h cs rows results)"

fun index_search ::
  "env \<Rightarrow> faiss_index \<Rightarrow> ndarray \<Rightarrow> int \<Rightarrow> exn + (real \<times> int) list list" where
  \<comment> \<open>\<open>index.search(x, k)\<close>, which unpacks \<open>n, d = x.shape\<close> and asserts \<open>d == self.d\<close>\<close>
  "index_search ev ix (Array1 xs) k =
     Inl (Exn ''ValueError'' ''not enough values to unpack (expected 2, got 1)'')"
| "index_search ev ix (Array2 d rows) k =
     (if d = index_d ix then faiss_search ev ix rows k else Inl (Exn ''AssertionError'' []))"

definition search ::
  "env \<Rightarrow> heap \<Rightarrow> vector_store \<Rightarrow> string \<Rightarrow> int
     \<Rightarrow> (exn + (addr \<times> real) list) \<times> heap \<times> vector_store" where
  "search ev h vs query k =
     (case index vs of
        None \<Rightarrow>
          (Inl (Exn ''ValueError''
                  (''Index non construit. Appelez build_index() d'' @ [CHR 0x27] @ ''abord.'')),
           h, vs)
      | Some ix \<Rightarrow>
          (case load_embedding_model ev vs of
             (Inl e, vs1) \<Rightarrow> (Inl e, h, vs1)
           | (Inr u, vs1) \<Rightarrow>
               (case encode_with ev vs1 [query] of
                  Inl e \<Rightarrow> (Inl e, h, vs1)
                | Inr query_embedding \<Rightarrow>
                    (case normalize_L2_array query_embedding of
                       Inl e \<Rightarrow> (Inl e, h, vs1)
                     | Inr normalized \<Rightarrow>
                         (case index_search ev ix normalized k of
                            Inl e \<Rightarrow> (Inl e, h, vs1)
                          | Inr [] \<Rightarrow>
                              (Inl (Exn ''IndexError'' ''index 0 is out of bounds''), h, vs1)
                          | Inr (row # other_rows) \<Rightarrow>
                              (case collect_results h (chunks vs1) row [] of
                                 (r, h') \<Rightarrow> (r, h', vs1)))))))"

subsection \<open>Restoring a saved index\<close>

definition load_index ::
  "env \<Rightarrow> heap \<Rightarrow> vector_store \<Rightarrow> string \<Rightarrow> (exn + unit) \<times> heap \<times> vector_store" where
  \<comment> \<open>unpickling the metadata creates new chunk dictionaries\<close>
  "load_index ev h vs filepath =
     (case read_index ev (filepath @ ''.faiss'') of
        None \<Rightarrow>
          (Inl (Exn ''FileNotFoundError''
                  (''Index non trouv'' @ [CHR 0xE9] @ '': '' @ filepath @ ''.faiss'')), h, vs)
      | Some (Inl e) \<Rightarrow> (Inl e, h, vs)
      | Some (Inr ix) \<Rightarrow>
          (case read_pickle ev (filepath @ ''.pkl'') of
             None \<Rightarrow>
               (Inl (Exn ''FileNotFoundError''
                       (''M'' @ [CHR 0xE9] @ ''tadonn'' @ [CHR 0xE9] @ ''es non trouv''
                          @ [CHR 0xE9] @ ''es: '' @ filepath @ ''.pkl'')),
                h, vs\<lparr>index := Some ix\<rparr>)
           | Some (Inl e) \<Rightarrow> (Inl e, h, vs\<lparr>index := Some ix\<rparr>)
           | Some (Inr md) \<Rightarrow>
               (case alloc_all h (md_chunks md) of
                  (addrs, h') \<Rightarrow>
                    (Inr (), h',
                     vs\<lparr>index := Some ix, chunks := addrs, model_name := md_model_name md,
                        dimension := md_dimension md\<rparr>))))"


section \<open>RAGSystem\<close>

record rag_system =
  embedding_model_name :: string
  generation_model_name :: string
  device :: string
  pdf_processor :: pdf_processor
  vector_store :: vector_store
  generator :: "string option"
  is_ready :: bool
  current_pdf :: "string option"

definition new_vector_store :: "string \<Rightarrow> vector_store" where
  \<comment> \<open>\<open>VectorStore.__init__\<close>\<close>
  "new_vector_store name =
     \<lparr>model_name = name, embedding_model = None, index = None, chunks = [], dimension = None\<rparr>"

definition new_rag_system :: "string \<Rightarrow> string \<Rightarrow> string \<Rightarrow> rag_system" where
  \<comment> \<open>\<open>RAGSystem.__init__\<close>, with the device already chosen\<close>
  "new_rag_system emb gen dev =
     \<lparr>embedding_model_name = emb, generation_model_name = gen, device = dev,
      pdf_processor = \<lparr>chunk_size = 500, overlap = 50, use_pymupdf = True\<rparr>,
      vector_store = new_vector_store emb, generator = None, is_ready = False,
      current_pdf = None\<rparr>"

definition load_generation_model :: "env \<Rightarrow> rag_system \<Rightarrow> (exn + unit) \<times> rag_system" where
  "load_generation_model ev s =
     (case generator s of
        None \<Rightarrow>
          (case pipeline_load ev (generation_model_name s) (device s) of
             Inl e \<Rightarrow> (Inl e, s)
           | Inr u \<Rightarrow> (Inr (), s\<lparr>generator := Some (generation_model_name s)\<rparr>))
      | Some g \<Rightarrow> (Inr (), s))"

record load_stats =
  pdf_path :: string
  nb_chunks :: nat
  load_status :: string

definition load_pdf ::
  "env \<Rightarrow> heap \<Rightarrow> rag_system \<Rightarrow> string \<Rightarrow> (exn + load_stats) \<times> heap \<times> rag_system" where
  \<comment> \<open>the dictionaries that \<open>create_chunks\<close> built become objects of the store here\<close>
  "load_pdf ev h s path =
     (case process_pdf (pdf_processor s) ev path of
        Inl e \<Rightarrow> (Inl e, h, s\<lparr>is_ready := False\<rparr>)
      | Inr result \<Rightarrow>
          (case alloc_all h (result_chunks result) of
             (cs, h1) \<Rightarrow>
               (case build_index ev h1 cs (vector_store s) of
                  (Inl e, vs1) \<Rightarrow> (Inl e, h1, s\<lparr>vector_store := vs1, is_ready := False\<rparr>)
                | (Inr u, vs1) \<Rightarrow>
                    (Inr \<lparr>pdf_path = path, nb_chunks = length cs,
                          load_status = ''Pr'' @ [CHR 0xEA] @ ''t pour les questions''\<rparr>,
                     h1,
                     s\<lparr>vector_store := vs1, current_pdf := Some path, is_ready := True\<rparr>))))"

definition create_prompt :: "string \<Rightarrow> heap \<Rightarrow> addr list \<Rightarrow> string" where
  "create_prompt question h context_chunks =
     ''Contexte: '' @ join [newline, newline] (map (\<lambda>a. chunk_text (h ! a)) context_chunks)
     @ [newline, newline] @ ''Question: '' @ question @ [newline, newline]
     @ ''R'' @ [CHR 0xE9] @ ''ponds '' @ [CHR 0xE0]
     @ '' la question en te basant uniquement sur le contexte fourni. Si la r''
     @ [CHR 0xE9] @ ''ponse n'' @ [CHR 0x27] @ ''est pas dans le contexte, dis ''
     @ [CHR 0x22] @ ''Je ne trouve pas cette information dans le document.'' @ [CHR 0x22]
     @ [newline, newline] @ ''R'' @ [CHR 0xE9] @ ''ponse:''"

record source =
  source_chunk_id :: int
  source_text :: string
  source_score :: real

record response =
  answer :: string
  sources :: "source list"
  error :: "string option"
  question_echo :: "string option"
  status :: "string option"

definition round_half_even :: "real \<Rightarrow> int" where
  "round_half_even x =
     (let f = \<lfloor>x\<rfloor>; r = x - of_int f
      in if r < 1 / 2 then f else if 1 / 2 < r then f + 1 else if even f then f else f + 1)"

definition round3 :: "real \<Rightarrow> real" where
  \<comment> \<open>\<open>round(score, 3)\<close>, on the reals\<close>
  "round3 x = of_int (round_half_even (x * 1000)) / 1000"

definition format_source :: "heap \<Rightarrow> addr \<times> real \<Rightarrow> source" where
  \<comment> \<open>every chunk dictionary has the key \<open>chunk_id\<close>, so the default of \<open>get\<close> is not used\<close>
  "format_source h r =
     (let c = h ! fst r
      in \<lparr>source_chunk_id = chunk_id c,
          source_text = (if 200 < length (chunk_text c) then take 200 (chunk_text c) @ ''...''
                         else chunk_text c),
          source_score = round3 (snd r)\<rparr>)"

definition no_pdf_response :: response where
  "no_pdf_response =
     \<lparr>answer = ''Aucun PDF charg'' @ [CHR 0xE9] @ ''. Veuillez d'' @ [CHR 0x27]
               @ ''abord charger un document.'',
      sources = [], error = Some ''no_pdf_loaded'', question_echo = None, status = None\<rparr>"

definition no_relevant_content_response :: response where
  "no_relevant_content_response =
     \<lparr>answer = ''Aucun contenu pertinent trouv'' @ [CHR 0xE9] @ '' dans le document.'',
      sources = [], error = Some ''no_relevant_content'', question_echo = None, status = None\<rparr>"

definition generation_error_response :: "exn \<Rightarrow> response" where
  "generation_error_response e =
     \<lparr>answer = ''Erreur lors de la g'' @ [CHR 0xE9] @ ''n'' @ [CHR 0xE9] @ ''ration: '' @ exn_msg e,
      sources = [], error = Some ''generation_error'', question_echo = None, status = None\<rparr>"

definition answer_body ::
  "env \<Rightarrow> heap \<Rightarrow> rag_system \<Rightarrow> string \<Rightarrow> int \<Rightarrow> (exn + response) \<times> heap \<times> rag_system" where
  \<comment> \<open>the body of the \<open>try\<close> block of \<open>generate_answer\<close>\<close>
  "answer_body ev h s question max_context_chunks =
     (case load_generation_model ev s of
        (Inl e, s1) \<Rightarrow> (Inl e, h, s1)
      | (Inr u, s1) \<Rightarrow>
          (case search ev h (vector_store s1) question max_context_chunks of
             (Inl e, h1, vs1) \<Rightarrow> (Inl e, h1, s1\<lparr>vector_store := vs1\<rparr>)
           | (Inr search_results, h1, vs1) \<Rightarrow>
               if search_results = []
               then (Inr no_relevant_content_response, h1, s1\<lparr>vector_store := vs1\<rparr>)
               else (case generator s1 of
                       None \<Rightarrow> (Inl (Exn ''TypeError'' ''NoneType object is not callable''),
                                h1, s1\<lparr>vector_store := vs1\<rparr>)
                     | Some g \<Rightarrow>
                         (case pipeline_call ev g
                                 (create_prompt question h1 (map fst search_results)) of
                            Inl e \<Rightarrow> (Inl e, h1, s1\<lparr>vector_store := vs1\<rparr>)
                          | Inr [] \<Rightarrow> (Inl (Exn ''IndexError'' ''list index out of range''),
                                       h1, s1\<lparr>vector_store := vs1\<rparr>)
                          | Inr (generated_text # others) \<Rightarrow>
                              (Inr \<lparr>answer = strip generated_text,
                                    sources = map (format_source h1) search_results,
                                    error = None, question_echo = Some question,
                                    status = Some ''success''\<rparr>,
                               h1, s1\<lparr>vector_store := vs1\<rparr>)))))"

definition generate_answer ::
  "env \<Rightarrow> heap \<Rightarrow> rag_system \<Rightarrow> string \<Rightarrow> int \<Rightarrow> response \<times> heap \<times> rag_system" where
  "generate_answer ev h s question max_context_chunks =
     (if \<not> is_ready s then (no_pdf_response, h, s)
      else (case answer_body ev h s question max_context_chunks of
              (Inl e, h1, s1) \<Rightarrow> (generation_error_response e, h1, s1)
            | (Inr r, h1, s1) \<Rightarrow> (r, h1, s1)))"


section \<open>What the code relies on from its backends\<close>

text \<open>
  The part of the documented behaviour of \<open>IndexFlatIP.search\<close> that the results of
  \<open>search\<close> depend on: it answers one row per query vector, each row has \<open>k\<close> entries,
  an entry is the padding id \<open>-1\<close> or a stored vector's position together with the inner
  product of that vector and the query, no position occurs twice, and the entries that are
  not padding are in descending order of score. The order of entries with equal scores is
  not part of it.
\<close>

definition inner_product :: "vec \<Rightarrow> vec \<Rightarrow> real" where
  "inner_product u v = sum_list (map (\<lambda>p. fst p * snd p) (zip u v))"

definition flat_ip_row :: "faiss_index \<Rightarrow> vec \<Rightarrow> int \<Rightarrow> (real \<times> int) list \<Rightarrow> bool" where
  "flat_ip_row ix q k row =
     (int (length row) = k
      \<and> list_all (\<lambda>r. snd r = - 1
                      \<or> (0 \<le> snd r \<and> snd r < int (ntotal ix)
                          \<and> fst r = inner_product (index_vectors ix ! nat (snd r)) q)) row
      \<and> distinct (filter (\<lambda>i. i \<noteq> - 1) (map snd row))
      \<and> sorted_wrt (\<lambda>s t. t \<le> s) (map fst (filter (\<lambda>r. snd r \<noteq> - 1) row)))"

definition backend_contract :: "env \<Rightarrow> bool" where
  "backend_contract ev =
     (\<forall>ix qs k rows. faiss_search ev ix qs k = Inr rows \<longrightarrow>
        list_all2 (\<lambda>q row. flat_ip_row ix q k row) qs rows)"

definition ranked :: "heap \<Rightarrow> (addr \<times> real) list \<Rightarrow> bool" where
  \<comment> \<open>descending by score, equal scores by ascending chunk id\<close>
  "ranked h results =
     sorted_wrt (\<lambda>r r'. snd r' < snd r \<or> (snd r' = snd r \<and> chunk_id (h ! fst r) < chunk_id (h ! fst r')))
       results"

definition result_values :: "heap \<Rightarrow> (addr \<times> real) list \<Rightarrow> (chunk \<times> real) list" where
  \<comment> \<open>what a caller reads in a result list\<close>
  "result_values h results = map (\<lambda>r. (h ! fst r, snd r)) results"

section \<open>A small concrete installation\<close>

text \<open>
  Two existing one-page documents, one of them with a blank page, an embedding model of
  dimension 1 that encodes every text as the unit vector and, as \<open>encode\<close> of a
  \<open>SentenceTransformer\<close> does, the empty list as the empty array of one dimension, an
  exhaustive inner-product search that ranks the stored vectors
  by a stable sort of the list that runs from the last stored to the first, one saved index
  built with model \<open>A\<close>, and a generation pipeline that loads but fails when called.
\<close>

definition flat_rank :: "faiss_index \<Rightarrow> vec \<Rightarrow> (real \<times> int) list" where
  "flat_rank ix q =
     sort_key (\<lambda>r. - fst r)
       (map (\<lambda>i. (inner_product (index_vectors ix ! i) q, int i)) (rev [0 ..< ntotal ix]))"

definition flat_search :: "faiss_index \<Rightarrow> vec list \<Rightarrow> int \<Rightarrow> exn + (real \<times> int) list list" where
  "flat_search ix qs k =
     (if k \<le> 0 then Inl (Exn ''AssertionError'' [])
      else Inr (map (\<lambda>q. take (nat k) (flat_rank ix q @ replicate (nat k) (- 1, - 1))) qs))"

definition demo_chunk :: "nat \<Rightarrow> chunk" where
  "demo_chunk k =
     \<lparr>chunk_text = ''alpha'', chunk_id = int k, start_word = int k, end_word = int k + 1,
      word_count = 1, char_count = 5\<rparr>"

definition demo_env :: env where
  "demo_env =
     \<lparr>path_exists = (\<lambda>p. p = ''a.pdf'' \<or> p = ''blank.pdf''),
      fitz_open = (\<lambda>p. if p = ''blank.pdf'' then Inr [Inr ''  '']
                         else Inr [Inr ''alpha beta gamma'']),
      pypdf2_open = (\<lambda>p. Inl (Exn ''OSError'' ''unreadable'')),
      st_load = (\<lambda>name. Inr 1),
      st_encode = (\<lambda>m texts. Inr (if texts = [] then Array1 []
                                      else Array2 1 (map (\<lambda>t. [1]) texts))),
      faiss_search = flat_search,
      read_index = (\<lambda>p. if p = ''saved.faiss''
                          then Some (Inr \<lparr>index_d = 1, index_vectors = [[1]]\<rparr>) else None),
      read_pickle = (\<lambda>p. if p = ''saved.pkl''
                           then Some (Inr \<lparr>md_chunks = [demo_chunk 0], md_model_name = ''A'',
                                            md_dimension = Some 1\<rparr>)
                           else None),
      pipeline_load = (\<lambda>name dev. Inr ()),
      pipeline_call = (\<lambda>g prompt. Inl (Exn ''RuntimeError'' ''out of memory''))\<rparr>"

definition demo_session :: rag_system where
  "demo_session = new_rag_system ''E'' ''G'' ''cpu''"

definition loaded_heap :: heap where
  "loaded_heap = fst (snd (load_pdf demo_env [] demo_session ''a.pdf''))"

definition loaded_session :: rag_system where
  "loaded_session = snd (snd (load_pdf demo_env [] demo_session ''a.pdf''))"

definition two_chunks :: heap where
  "two_chunks = [demo_chunk 0, demo_chunk 1]"

definition two_chunk_store :: vector_store where
  "two_chunk_store = snd (build_index demo_env two_chunks [0, 1] (new_vector_store ''E''))"

definition demo_doc_chunk :: chunk where
  "demo_doc_chunk = \<lparr>chunk_text = ''--- Page 1 ---'' @ [newline] @ ''alpha beta gamma'', chunk_id = 0,
              start_word = 0, end_word = 7, word_count = 7, char_count = 31\<rparr>"

section \<open>Segmentation: tokens, loop invariants and the segment properties\<close>

lemma dropWhile_all_Nil: "(\<forall>x\<in>set (dropWhile P s). P x) \<Longrightarrow> dropWhile P s = []"
  using hd_dropWhile [of P s] hd_in_set [of "dropWhile P s"] by blast

lemma strip_empty_iff: "strip s = [] \<longleftrightarrow> (\<forall>c\<in>set s. isspace c)"
proof
  assume "strip s = []"
  then have "dropWhile isspace (rev (dropWhile isspace s)) = []"
    unfolding strip_def by simp
  then have "\<forall>x\<in>set (dropWhile isspace s). isspace x"
    by (simp only: dropWhile_eq_Nil_conv set_rev)
  then have "dropWhile isspace s = []" by (rule dropWhile_all_Nil)
  then show "\<forall>c\<in>set s. isspace c" by (simp only: dropWhile_eq_Nil_conv)
next
  assume "\<forall>c\<in>set s. isspace c"
  then have h: "dropWhile isspace s = []" by (simp only: dropWhile_eq_Nil_conv)
  show "strip s = []" by (simp only: strip_def h rev.simps dropWhile.simps)
qed

lemma chunk_loop_length: "length acc \<le> length (chunk_loop ws cs step i acc)"
proof (induction ws cs step i acc rule: chunk_loop.induct)
  case (1 ws cs step i acc)
  show ?case
  proof (cases "step \<le> 0 \<or> int (length ws) \<le> i")
    case True
    then show ?thesis by (simp add: chunk_loop.simps [of ws cs step i acc])
  next
    case False
    show ?thesis
    proof (cases "i + cs \<ge> int (length ws)")
      case True
      with False show ?thesis by (simp add: chunk_loop.simps [of ws cs step i acc])
    next
      case b: False
      from "1.IH" [OF False b] False b show ?thesis
        by (simp add: chunk_loop.simps [of ws cs step i acc])
    qed
  qed
qed

lemma chunk_loop_nth_old:
  "j < length acc \<Longrightarrow> chunk_loop ws cs step i acc ! j = acc ! j"
proof (induction ws cs step i acc rule: chunk_loop.induct)
  case (1 ws cs step i acc)
  show ?case
  proof (cases "step \<le> 0 \<or> int (length ws) \<le> i")
    case True
    then show ?thesis by (simp add: chunk_loop.simps [of ws cs step i acc])
  next
    case False
    show ?thesis
    proof (cases "i + cs \<ge> int (length ws)")
      case True
      with False "1.prems" show ?thesis
        by (simp add: chunk_loop.simps [of ws cs step i acc] nth_append)
    next
      case b: False
      from "1.IH" [OF False b] "1.prems" False b show ?thesis
        by (simp add: chunk_loop.simps [of ws cs step i acc] nth_append)
    qed
  qed
qed

lemma chunk_loop_nth_new:
  "length acc \<le> j \<Longrightarrow> j < length (chunk_loop ws cs step i acc) \<Longrightarrow>
   chunk_loop ws cs step i acc ! j = window_chunk ws cs (i + int (j - length acc) * step) j
   \<and> i + int (j - length acc) * step < int (length ws)
   \<and> (Suc j < length (chunk_loop ws cs step i acc) \<longrightarrow>
        i + int (j - length acc) * step + cs < int (length ws))"
proof (induction ws cs step i acc rule: chunk_loop.induct)
  case (1 ws cs step i acc)
  show ?case
  proof (cases "step \<le> 0 \<or> int (length ws) \<le> i")
    case True
    with "1.prems" show ?thesis by (simp add: chunk_loop.simps [of ws cs step i acc])
  next
    case False
    show ?thesis
    proof (cases "i + cs \<ge> int (length ws)")
      case True
      with False have r: "chunk_loop ws cs step i acc = acc @ [window_chunk ws cs i (length acc)]"
        by (simp add: chunk_loop.simps [of ws cs step i acc])
      with "1.prems" have "j = length acc" by simp
      with False show ?thesis unfolding r by simp
    next
      case b: False
      let ?acc' = "acc @ [window_chunk ws cs i (length acc)]"
      have eq: "chunk_loop ws cs step i acc = chunk_loop ws cs step (i + step) ?acc'"
        using False b by (simp add: chunk_loop.simps [of ws cs step i acc])
      show ?thesis
      proof (cases "j = length acc")
        case True
        have "chunk_loop ws cs step (i + step) ?acc' ! j = ?acc' ! j"
          using True by (intro chunk_loop_nth_old) simp
        with True eq False b show ?thesis by simp
      next
        case f: False
        with "1.prems" have le: "length ?acc' \<le> j" by simp
        have lt: "j < length (chunk_loop ws cs step (i + step) ?acc')"
          using "1.prems" eq by simp
        have idx: "i + step + int (j - length ?acc') * step = i + int (j - length acc) * step"
          using le by (simp add: algebra_simps of_nat_diff)
        from "1.IH" [OF False b le lt] show ?thesis
          unfolding eq idx by simp
      qed
    qed
  qed
qed

lemma chunk_loop_last:
  "0 < step \<Longrightarrow> i < int (length ws) \<Longrightarrow>
   length acc < length (chunk_loop ws cs step i acc)
   \<and> (int (length ws) \<le> i + int (length (chunk_loop ws cs step i acc) - length acc - 1) * step + cs
      \<or> int (length ws) \<le> i + int (length (chunk_loop ws cs step i acc) - length acc) * step)"
proof (induction ws cs step i acc rule: chunk_loop.induct)
  case (1 ws cs step i acc)
  from "1.prems" have a: "\<not> (step \<le> 0 \<or> int (length ws) \<le> i)" by simp
  show ?case
  proof (cases "i + cs \<ge> int (length ws)")
    case True
    with a show ?thesis by (simp add: chunk_loop.simps [of ws cs step i acc])
  next
    case b: False
    let ?acc' = "acc @ [window_chunk ws cs i (length acc)]"
    let ?r = "chunk_loop ws cs step (i + step) ?acc'"
    have eq: "chunk_loop ws cs step i acc = ?r"
      using a b by (simp add: chunk_loop.simps [of ws cs step i acc])
    show ?thesis
    proof (cases "i + step < int (length ws)")
      case True
      note ih = "1.IH" [OF a b "1.prems"(1) True]
      have l: "length ?acc' < length ?r" by (rule conjunct1 [OF ih])
      have d: "int (length ws) \<le> i + step + int (length ?r - length ?acc' - 1) * step + cs
          \<or> int (length ws) \<le> i + step + int (length ?r - length ?acc') * step"
        by (rule conjunct2 [OF ih])
      define n where "n = length ?r - Suc (length acc)"
      from l have n: "0 < n" and e1: "length ?r - length acc - 1 = n"
        and e2: "length ?r - length acc = Suc n"
        and e3: "length ?r - length ?acc' - 1 = n - 1"
        and e4: "length ?r - length ?acc' = n"
        by (simp_all add: n_def)
      from n have e5: "int (n - 1) = int n - 1" by simp
      from d have "int (length ws) \<le> i + int n * step + cs
          \<or> int (length ws) \<le> i + int (Suc n) * step"
        unfolding e3 e4 e5 by (simp add: algebra_simps)
      moreover from l have "length acc < length ?r" by simp
      ultimately show ?thesis unfolding eq e1 e2 by simp
    next
      case False
      then have "?r = ?acc'" using "1.prems" by (simp add: chunk_loop.simps [of ws cs step "i + step"])
      with False show ?thesis unfolding eq by simp
    qed
  qed
qed

lemma findall_scan_Nil_iff: "findall_scan s w = [] \<longleftrightarrow> w = [] \<and> (\<forall>c\<in>set s. isspace c)"
  by (induction s arbitrary: w) auto

lemma findall_nonspace_Nil_iff: "findall_nonspace s = [] \<longleftrightarrow> (\<forall>c\<in>set s. isspace c)"
  by (simp add: findall_nonspace_def findall_scan_Nil_iff)

lemma window_chunk_sel [simp]:
  "chunk_id (window_chunk ws cs i k) = int k"
  "start_word (window_chunk ws cs i k) = i"
  "end_word (window_chunk ws cs i k) = min (i + cs) (int (length ws))"
  "word_count (window_chunk ws cs i k) = int (length (py_slice ws i (i + cs)))"
  "chunk_text (window_chunk ws cs i k) = join '' '' (py_slice ws i (i + cs))"
  "char_count (window_chunk ws cs i k) = int (length (join '' '' (py_slice ws i (i + cs))))"
  by (simp_all add: window_chunk_def Let_def)

lemma chunk_loop_from_start:
  assumes "j < length (chunk_loop ws cs step 0 [])"
  shows "chunk_loop ws cs step 0 [] ! j = window_chunk ws cs (int j * step) j"
    and "int j * step < int (length ws)"
    and "Suc j < length (chunk_loop ws cs step 0 []) \<Longrightarrow> int j * step + cs < int (length ws)"
proof -
  have le: "length ([]::chunk list) \<le> j" by simp
  have e: "0 + int (j - length ([]::chunk list)) * step = int j * step" by simp
  note r = chunk_loop_nth_new [OF le assms, unfolded e]
  show "chunk_loop ws cs step 0 [] ! j = window_chunk ws cs (int j * step) j"
    by (rule conjunct1 [OF r])
  show "int j * step < int (length ws)"
    by (rule conjunct1 [OF conjunct2 [OF r]])
  show "Suc j < length (chunk_loop ws cs step 0 []) \<Longrightarrow> int j * step + cs < int (length ws)"
    by (rule mp [OF conjunct2 [OF conjunct2 [OF r]]])
qed

lemma chunk_loop_reaches_end:
  assumes "0 < step" "step \<le> cs" "0 < length ws"
  shows "chunk_loop ws cs step 0 [] \<noteq> []"
    and "int (length ws) \<le> int (length (chunk_loop ws cs step 0 []) - 1) * step + cs"
proof -
  define n where "n = length (chunk_loop ws cs step 0 [])"
  from assms(3) have lt: "0 < int (length ws)" by simp
  have r: "length ([]::chunk list) < n
     \<and> (int (length ws) \<le> 0 + int (n - length ([]::chunk list) - 1) * step + cs
        \<or> int (length ws) \<le> 0 + int (n - length ([]::chunk list)) * step)"
    unfolding n_def by (rule chunk_loop_last [OF assms(1) lt])
  from r have n: "0 < n" by simp
  then obtain m where m: "n = Suc m" by (cases n) auto
  from r have d: "int (length ws) \<le> int m * step + cs \<or> int (length ws) \<le> int (Suc m) * step"
    unfolding m by simp
  from n show "chunk_loop ws cs step 0 [] \<noteq> []" unfolding n_def by simp
  have "int (Suc m) * step = int m * step + step" by (simp add: algebra_simps)
  with d assms(2) have "int (length ws) \<le> int m * step + cs" by linarith
  then show "int (length ws) \<le> int (length (chunk_loop ws cs step 0 []) - 1) * step + cs"
    unfolding n_def [symmetric] m by simp
qed

lemma length_py_slice:
  "0 \<le> i \<Longrightarrow> i < int (length xs) \<Longrightarrow> 0 \<le> cs \<Longrightarrow>
   int (length (py_slice xs i (i + cs))) = min (i + cs) (int (length xs)) - i"
  by (auto simp: py_slice_def slice_bound_def Let_def)

lemma py_slice_take_drop:
  "0 \<le> i \<Longrightarrow> 0 \<le> cs \<Longrightarrow> py_slice xs i (i + cs) = take (nat cs) (drop (nat i) xs)"
  by (auto simp: py_slice_def slice_bound_def Let_def min_def nat_add_distrib)

lemma create_chunks_cases:
  "create_chunks p text_in =
     (if strip text_in = [] then Inr []
      else if int (length (findall_nonspace text_in)) \<le> chunk_size p
        then Inr [\<lparr>chunk_text = text_in, chunk_id = 0, start_word = 0,
                   end_word = int (length (findall_nonspace text_in)),
                   word_count = int (length (findall_nonspace text_in)),
                   char_count = int (length text_in)\<rparr>]
        else if chunk_size p - overlap p = 0
          then Inl (Exn ''ValueError'' ''range() arg 3 must not be zero'')
          else Inr (chunk_loop (findall_nonspace text_in) (chunk_size p)
                      (chunk_size p - overlap p) 0 []))"
  by (simp add: create_chunks_def Let_def)

text \<open>
  Claim C9. Every chunk that \<open>create_chunks\<close> returns has \<open>chunk_id\<close> equal to its
  position in the returned list and \<open>word_count\<close> equal to \<open>end_word - start_word\<close>, and
  its \<open>end_word\<close> does not exceed the number of tokens of the text. The chunk size is
  taken non-negative, which the contract of the segmenter (\<open>chunk_size > 0\<close>) implies.
\<close>

theorem create_chunks_invariants:
  assumes "create_chunks p text_in = Inr segs" and "0 \<le> chunk_size p" and "j < length segs"
  shows "chunk_id (segs ! j) = int j
       \<and> word_count (segs ! j) = end_word (segs ! j) - start_word (segs ! j)
       \<and> end_word (segs ! j) \<le> int (length (findall_nonspace text_in))"
proof -
  let ?ws = "findall_nonspace text_in"
  let ?step = "chunk_size p - overlap p"
  consider (empty) "strip text_in = []"
    | (short) "strip text_in \<noteq> []" "int (length ?ws) \<le> chunk_size p"
    | (zero) "strip text_in \<noteq> []" "\<not> int (length ?ws) \<le> chunk_size p" "?step = 0"
    | (loop) "strip text_in \<noteq> []" "\<not> int (length ?ws) \<le> chunk_size p" "?step \<noteq> 0"
    by blast
  then show ?thesis
  proof cases
    case empty
    then have "create_chunks p text_in = Inr []" by (simp add: create_chunks_cases)
    with assms(1) have "segs = []" by simp
    with assms(3) show ?thesis by simp
  next
    case short
    then have "create_chunks p text_in = Inr [\<lparr>chunk_text = text_in, chunk_id = 0, start_word = 0,
                   end_word = int (length ?ws), word_count = int (length ?ws),
                   char_count = int (length text_in)\<rparr>]"
      by (simp add: create_chunks_cases)
    with assms(1) have c: "segs = [\<lparr>chunk_text = text_in, chunk_id = 0, start_word = 0,
                   end_word = int (length ?ws), word_count = int (length ?ws),
                   char_count = int (length text_in)\<rparr>]" by simp
    with assms(3) have "j = 0" by simp
    then show ?thesis unfolding c by simp
  next
    case zero
    then have "create_chunks p text_in = Inl (Exn ''ValueError'' ''range() arg 3 must not be zero'')"
      by (simp add: create_chunks_cases)
    with assms(1) show ?thesis by simp
  next
    case loop
    then have "create_chunks p text_in = Inr (chunk_loop ?ws (chunk_size p) ?step 0 [])"
      by (simp add: create_chunks_cases)
    with assms(1) have c: "segs = chunk_loop ?ws (chunk_size p) ?step 0 []" by simp
    from assms(3) have j: "j < length (chunk_loop ?ws (chunk_size p) ?step 0 [])"
      unfolding c .
    have nth: "segs ! j = window_chunk ?ws (chunk_size p) (int j * ?step) j"
      unfolding c by (rule chunk_loop_from_start(1) [OF j])
    have lt: "int j * ?step < int (length ?ws)" by (rule chunk_loop_from_start(2) [OF j])
    have "0 < ?step"
    proof (rule ccontr)
      assume "\<not> 0 < ?step"
      then have "chunk_loop ?ws (chunk_size p) ?step 0 [] = []"
        by (simp add: chunk_loop.simps [of ?ws "chunk_size p" ?step 0 "[]"])
      with j show False by simp
    qed
    then have ge: "0 \<le> int j * ?step" by simp
    show ?thesis
      unfolding nth using length_py_slice [OF ge lt assms(2)] by simp
  qed
qed

text \<open>
  Claim C5. A text that is not only whitespace and has at most \<open>chunk_size\<close> tokens
  gives exactly one chunk, whose text is the whole text, spanning the tokens \<open>0\<close> to
  \<open>T\<close> with \<open>word_count = T\<close>; an empty or whitespace-only text gives no chunk and
  no error.
\<close>

theorem create_chunks_short_text:
  "((\<exists>c\<in>set text_in. \<not> isspace c) \<and> int (length (findall_nonspace text_in)) \<le> chunk_size p \<longrightarrow>
      create_chunks p text_in =
        Inr [\<lparr>chunk_text = text_in, chunk_id = 0, start_word = 0,
              end_word = int (length (findall_nonspace text_in)),
              word_count = int (length (findall_nonspace text_in)),
              char_count = int (length text_in)\<rparr>])
   \<and> ((\<forall>c\<in>set text_in. isspace c) \<longrightarrow> create_chunks p text_in = Inr [])"
  by (auto simp: create_chunks_def Let_def strip_empty_iff)

lemma window_text_range:
  assumes "0 \<le> i" "i < int (length ws)" "0 \<le> cs"
  shows "join '' '' (py_slice ws i (i + cs)) =
         join '' '' (take (nat (min (i + cs) (int (length ws)) - i)) (drop (nat i) ws))"
proof -
  have "take (nat cs) (drop (nat i) ws) =
        take (nat (min (i + cs) (int (length ws)) - i)) (drop (nat i) ws)"
  proof (cases "i + cs \<le> int (length ws)")
    case True
    then show ?thesis by (simp add: min_def)
  next
    case False
    with assms have "length (drop (nat i) ws) \<le> nat cs"
      and "length (drop (nat i) ws) \<le> nat (min (i + cs) (int (length ws)) - i)"
      by (simp_all add: min_def)
    then show ?thesis by simp
  qed
  then show ?thesis by (simp add: py_slice_take_drop [OF assms(1,3)])
qed

lemma chunk_loop_scenario:
  assumes "length ws = 1200"
  shows "chunk_loop ws 500 450 0 [] =
         [window_chunk ws 500 0 0, window_chunk ws 500 450 1, window_chunk ws 500 900 2]"
proof -
  have "chunk_loop ws 500 450 0 [] = chunk_loop ws 500 450 450 [window_chunk ws 500 0 0]"
    using assms by (simp add: chunk_loop.simps [of ws 500 450 0 "[]"])
  also have "\<dots> = chunk_loop ws 500 450 900 [window_chunk ws 500 0 0, window_chunk ws 500 450 1]"
    using assms by (simp add: chunk_loop.simps [of ws 500 450 450])
  also have "\<dots> = [window_chunk ws 500 0 0, window_chunk ws 500 450 1, window_chunk ws 500 900 2]"
    using assms by (simp add: chunk_loop.simps [of ws 500 450 900])
  finally show ?thesis .
qed

lemma window_cover:
  fixes step cs T t :: int and n :: nat
  assumes step: "0 < step" "step \<le> cs" and t: "0 \<le> t" "t < T"
    and n: "0 < n"
    and last: "T \<le> int (n - 1) * step + cs"
    and inner: "\<And>j. Suc j < n \<Longrightarrow> int j * step + cs < T"
  shows "\<exists>j<n. int j * step \<le> t \<and> t < min (int j * step + cs) T"
proof (cases "int (n - 1) * step \<le> t")
  case True
  with t last n show ?thesis by (intro exI [of _ "n - 1"]) simp
next
  case False
  define j where "j = nat (t div step)"
  from t step have j: "int j = t div step" by (simp add: j_def pos_imp_zdiv_nonneg_iff)
  have dm: "t div step * step + t mod step = t" by (rule div_mult_mod_eq)
  have m0: "0 \<le> t mod step" and m1: "t mod step < step"
    using step(1) by simp_all
  from False have "t < int (n - 1) * step" by simp
  with dm m0 have "t div step * step < int (n - 1) * step" by linarith
  then have "t div step < int (n - 1)" using step(1) by (simp add: mult_less_cancel_right)
  with j have sj: "Suc j < n" by linarith
  have lo: "int j * step \<le> t" unfolding j using dm m0 by linarith
  have hi: "t < int j * step + cs" unfolding j using dm m1 step(2) by linarith
  from inner [OF sj] hi t have "t < min (int j * step + cs) T" by simp
  with lo sj show ?thesis by (intro exI [of _ j]) simp
qed

text \<open>
  Claim C4. With \<open>chunk_size > overlap \<ge> 0\<close> and more than \<open>chunk_size\<close> tokens,
  \<open>create_chunks\<close> succeeds; chunk \<open>j\<close> starts at token \<open>j * (chunk_size - overlap)\<close>
  and holds the tokens of its range joined by spaces; each chunk but the last has
  \<open>chunk_size\<close> tokens and shares exactly \<open>overlap\<close> tokens with its successor; the last
  chunk ends at the last token and every token position lies in some chunk. With 1200
  tokens, \<open>chunk_size = 500\<close> and \<open>overlap = 50\<close> the start offsets are 0, 450, 900.
\<close>

theorem create_chunks_sliding_window:
  assumes "0 \<le> overlap p" and "overlap p < chunk_size p"
    and "chunk_size p < int (length (findall_nonspace text_in))"
  shows "\<exists>segs. create_chunks p text_in = Inr segs \<and> segs \<noteq> []
    \<and> (\<forall>j<length segs.
          start_word (segs ! j) = int j * (chunk_size p - overlap p)
        \<and> chunk_text (segs ! j) =
            join '' '' (take (nat (end_word (segs ! j) - start_word (segs ! j)))
                          (drop (nat (start_word (segs ! j))) (findall_nonspace text_in))))
    \<and> (\<forall>j. Suc j < length segs \<longrightarrow>
          end_word (segs ! j) = start_word (segs ! j) + chunk_size p
        \<and> start_word (segs ! Suc j) \<le> end_word (segs ! j)
        \<and> end_word (segs ! j) \<le> end_word (segs ! Suc j)
        \<and> end_word (segs ! j) - start_word (segs ! Suc j) = overlap p)
    \<and> end_word (last segs) = int (length (findall_nonspace text_in))
    \<and> (\<forall>t. 0 \<le> t \<and> t < int (length (findall_nonspace text_in)) \<longrightarrow>
          (\<exists>j<length segs. start_word (segs ! j) \<le> t \<and> t < end_word (segs ! j)))
    \<and> (length (findall_nonspace text_in) = 1200 \<and> chunk_size p = 500 \<and> overlap p = 50 \<longrightarrow>
          map start_word segs = [0, 450, 900])"
proof -
  let ?ws = "findall_nonspace text_in"
  let ?cs = "chunk_size p"
  let ?step = "chunk_size p - overlap p"
  let ?T = "int (length ?ws)"
  let ?cl = "chunk_loop ?ws ?cs ?step 0 []"
  from assms have step: "0 < ?step" "?step \<le> ?cs" and cs: "0 \<le> ?cs" by simp_all
  from assms have ne: "0 < length ?ws" by (cases ?ws) simp_all
  then have "?ws \<noteq> []" by simp
  then have "strip text_in \<noteq> []"
    by (simp only: findall_nonspace_Nil_iff strip_empty_iff not_False_eq_True)
  with assms step have res: "create_chunks p text_in = Inr ?cl"
    by (simp add: create_chunks_cases)
  have nonempty: "?cl \<noteq> []" by (rule chunk_loop_reaches_end(1) [OF step ne])
  have last_end: "?T \<le> int (length ?cl - 1) * ?step + ?cs"
    by (rule chunk_loop_reaches_end(2) [OF step ne])
  have nth: "?cl ! j = window_chunk ?ws ?cs (int j * ?step) j" if "j < length ?cl" for j
    by (rule chunk_loop_from_start(1) [OF that])
  have below: "int j * ?step < ?T" if "j < length ?cl" for j
    by (rule chunk_loop_from_start(2) [OF that])
  have inner: "int j * ?step + ?cs < ?T" if "Suc j < length ?cl" for j
    using that by (intro chunk_loop_from_start(3)) simp_all
  have p1: "start_word (?cl ! j) = int j * ?step
      \<and> chunk_text (?cl ! j) =
            join '' '' (take (nat (end_word (?cl ! j) - start_word (?cl ! j)))
                          (drop (nat (start_word (?cl ! j))) ?ws))"
    if "j < length ?cl" for j
  proof -
    from step(1) have ge: "0 \<le> int j * ?step" by simp
    show ?thesis unfolding nth [OF that]
      using window_text_range [OF ge below [OF that] cs] by simp
  qed
  have p2: "end_word (?cl ! j) = start_word (?cl ! j) + ?cs
        \<and> start_word (?cl ! Suc j) \<le> end_word (?cl ! j)
        \<and> end_word (?cl ! j) \<le> end_word (?cl ! Suc j)
        \<and> end_word (?cl ! j) - start_word (?cl ! Suc j) = overlap p"
    if "Suc j < length ?cl" for j
  proof -
    from that have j: "j < length ?cl" by simp
    have e: "int (Suc j) * ?step = int j * ?step + ?step" by (simp add: algebra_simps)
    show ?thesis unfolding nth [OF that] nth [OF j]
      using inner [OF that] step assms(1) unfolding e by (simp add: min_def)
  qed
  have p3: "end_word (last ?cl) = ?T"
  proof -
    from nonempty have l: "length ?cl - 1 < length ?cl" by simp
    have "last ?cl = ?cl ! (length ?cl - 1)" by (rule last_conv_nth [OF nonempty])
    then show ?thesis unfolding nth [OF l] using last_end by simp
  qed
  have p4: "\<exists>j<length ?cl. start_word (?cl ! j) \<le> t \<and> t < end_word (?cl ! j)"
    if "0 \<le> t \<and> t < ?T" for t
  proof -
    from nonempty have n: "0 < length ?cl" by simp
    from that have t: "0 \<le> t" "t < ?T" by simp_all
    from window_cover [OF step t n last_end inner]
    obtain j where j: "j < length ?cl" "int j * ?step \<le> t" "t < min (int j * ?step + ?cs) ?T"
      by blast
    then show ?thesis by (intro exI [of _ j]) (simp add: nth [OF j(1)])
  qed
  have p5: "map start_word ?cl = [0, 450, 900]"
    if "length ?ws = 1200 \<and> ?cs = 500 \<and> overlap p = 50"
  proof -
    from that have "?cl = chunk_loop ?ws 500 450 0 []" by simp
    then show ?thesis using chunk_loop_scenario [of ?ws] that by simp
  qed
  from p1 have q1: "\<forall>j<length ?cl.
          start_word (?cl ! j) = int j * ?step
        \<and> chunk_text (?cl ! j) =
            join '' '' (take (nat (end_word (?cl ! j) - start_word (?cl ! j)))
                          (drop (nat (start_word (?cl ! j))) ?ws))"
    by blast
  from p2 have q2: "\<forall>j. Suc j < length ?cl \<longrightarrow>
          end_word (?cl ! j) = start_word (?cl ! j) + ?cs
        \<and> start_word (?cl ! Suc j) \<le> end_word (?cl ! j)
        \<and> end_word (?cl ! j) \<le> end_word (?cl ! Suc j)
        \<and> end_word (?cl ! j) - start_word (?cl ! Suc j) = overlap p"
    by blast
  from p4 have q4: "\<forall>t. 0 \<le> t \<and> t < ?T \<longrightarrow>
       (\<exists>j<length ?cl. start_word (?cl ! j) \<le> t \<and> t < end_word (?cl ! j))"
    by blast
  from p5 have q5: "length ?ws = 1200 \<and> ?cs = 500 \<and> overlap p = 50 \<longrightarrow>
       map start_word ?cl = [0, 450, 900]"
    by blast
  show ?thesis
    by (rule exI [of _ ?cl]) (intro conjI res nonempty q1 q2 p3 q4 q5)
qed

lemma isspace_examples [simp]: "isspace CHR '' ''" "\<not> isspace CHR ''w''"
  by (simp_all add: isspace_def)

lemma findall_repeated_word:
  "findall_nonspace (concat (replicate n ''w '')) = replicate n ''w''"
  unfolding findall_nonspace_def by (induction n) simp_all

theorem create_chunks_sliding_window_witness:
  "\<exists>segs. create_chunks \<lparr>chunk_size = 500, overlap = 50, use_pymupdf = True\<rparr>
               (concat (replicate 1200 ''w '')) = Inr segs
     \<and> map start_word segs = [0, 450, 900]
     \<and> end_word (last segs) = 1200"
proof -
  let ?p = "\<lparr>chunk_size = 500, overlap = 50, use_pymupdf = True\<rparr>"
  let ?t = "concat (replicate 1200 ''w '')"
  have T: "length (findall_nonspace ?t) = 1200" by (simp add: findall_repeated_word)
  have h1: "0 \<le> overlap ?p" and h2: "overlap ?p < chunk_size ?p"
    and h3: "chunk_size ?p < int (length (findall_nonspace ?t))"
    by (simp_all add: T)
  from create_chunks_sliding_window [OF h1 h2 h3] T show ?thesis by auto
qed

theorem create_chunks_short_text_witness:
  "create_chunks \<lparr>chunk_size = 500, overlap = 50, use_pymupdf = True\<rparr> ''w w'' =
     Inr [\<lparr>chunk_text = ''w w'', chunk_id = 0, start_word = 0, end_word = 2,
           word_count = 2, char_count = 3\<rparr>]
   \<and> create_chunks \<lparr>chunk_size = 500, overlap = 50, use_pymupdf = True\<rparr> ''  '' = Inr []"
  using create_chunks_short_text [of "''w w''" "\<lparr>chunk_size = 500, overlap = 50, use_pymupdf = True\<rparr>"]
    create_chunks_short_text [of "''  ''" "\<lparr>chunk_size = 500, overlap = 50, use_pymupdf = True\<rparr>"]
  by (simp add: findall_nonspace_def)

theorem create_chunks_invariants_witness:
  "\<exists>segs. create_chunks \<lparr>chunk_size = 2, overlap = 1, use_pymupdf = True\<rparr> ''w w w'' = Inr segs
     \<and> length segs = 2
     \<and> chunk_id (segs ! 1) = 1
     \<and> word_count (segs ! 1) = end_word (segs ! 1) - start_word (segs ! 1)
     \<and> end_word (segs ! 1) \<le> 3"
proof -
  let ?p = "\<lparr>chunk_size = 2, overlap = 1, use_pymupdf = True\<rparr>"
  have ws: "findall_nonspace ''w w w'' = [''w'', ''w'', ''w'']"
    by (simp add: findall_nonspace_def)
  have s: "strip ''w w w'' \<noteq> []" by (simp add: strip_def)
  have c: "create_chunks ?p ''w w w'' =
        Inr [window_chunk [''w'', ''w'', ''w''] 2 0 0, window_chunk [''w'', ''w'', ''w''] 2 1 1]"
    using s by (simp add: create_chunks_cases ws chunk_loop.simps [of _ 2 1 0]
        chunk_loop.simps [of _ 2 1 1])
  have h: "0 \<le> chunk_size ?p" by simp
  from create_chunks_invariants [OF c h, of 1] ws c show ?thesis by simp
qed

section \<open>Loading a document, restoring an index, answering\<close>

lemma normalize_unit: "normalize_L2 [1] = [1]"
  by (simp add: normalize_L2_def)

lemma demo_process_ok:
  "process_pdf (pdf_processor demo_session) demo_env ''a.pdf'' =
     Inr \<lparr>raw_text = [newline] @ ''--- Page 1 ---'' @ [newline] @ ''alpha beta gamma'',
          cleaned_text = ''--- Page 1 ---'' @ [newline] @ ''alpha beta gamma'',
          result_chunks = [demo_doc_chunk], success = True\<rparr>"
  by code_simp

lemma demo_process_missing:
  "process_pdf (pdf_processor demo_session) demo_env ''b.pdf'' =
     Inl (Exn ''FileNotFoundError'' (''Le fichier b.pdf n'' @ [CHR 0x27] @ ''existe pas''))"
  by code_simp

lemma demo_build_one:
  "build_index demo_env [demo_doc_chunk] [0] (new_vector_store ''E'') =
     (Inr (), \<lparr>model_name = ''E'', embedding_model = Some ''E'',
               index = Some \<lparr>index_d = 1, index_vectors = [[1]]\<rparr>, chunks = [0],
               dimension = Some 1\<rparr>)"
  by (simp add: build_index_def create_embeddings_def load_embedding_model_def encode_with_def
      new_vector_store_def demo_env_def normalize_unit)

lemma demo_load_ok:
  "load_pdf demo_env [] demo_session ''a.pdf'' =
     (Inr \<lparr>pdf_path = ''a.pdf'', nb_chunks = 1,
           load_status = ''Pr'' @ [CHR 0xEA] @ ''t pour les questions''\<rparr>,
      [demo_doc_chunk],
      demo_session\<lparr>vector_store := \<lparr>model_name = ''E'', embedding_model = Some ''E'',
               index = Some \<lparr>index_d = 1, index_vectors = [[1]]\<rparr>, chunks = [0],
               dimension = Some 1\<rparr>, current_pdf := Some ''a.pdf'', is_ready := True\<rparr>)"
proof -
  have vs: "vector_store demo_session = new_vector_store ''E''"
    by (simp add: demo_session_def new_rag_system_def)
  show ?thesis
    unfolding load_pdf_def demo_process_ok
    by (simp add: alloc_all_def vs demo_build_one)
qed

lemma loaded_heap_eq: "loaded_heap = [demo_doc_chunk]"
  by (simp add: loaded_heap_def demo_load_ok)

lemma loaded_session_eq:
  "loaded_session =
     demo_session\<lparr>vector_store := \<lparr>model_name = ''E'', embedding_model = Some ''E'',
               index = Some \<lparr>index_d = 1, index_vectors = [[1]]\<rparr>, chunks = [0],
               dimension = Some 1\<rparr>, current_pdf := Some ''a.pdf'', is_ready := True\<rparr>"
  by (simp add: loaded_session_def demo_load_ok)

text \<open>
  Claim C1, as amended. When \<open>load_pdf\<close> fails, the exception of \<open>process_pdf\<close> or of
  \<open>build_index\<close> is the one the caller gets, \<open>current_pdf\<close> is unchanged, and
  \<open>is_ready\<close> is false afterwards whatever it was before: the handler resets it.
\<close>

theorem load_pdf_failure_resets_ready:
  "(process_pdf (pdf_processor s) ev path = Inl e \<longrightarrow>
      load_pdf ev h s path = (Inl e, h, s\<lparr>is_ready := False\<rparr>))
   \<and> (process_pdf (pdf_processor s) ev path = Inr result
        \<and> build_index ev (h @ result_chunks result)
              [length h ..< length h + length (result_chunks result)] (vector_store s) = (Inl e, vs1) \<longrightarrow>
      load_pdf ev h s path =
        (Inl e, h @ result_chunks result, s\<lparr>vector_store := vs1, is_ready := False\<rparr>))
   \<and> (load_pdf ev h s path = (Inl e, h', s') \<longrightarrow>
        \<not> is_ready s' \<and> current_pdf s' = current_pdf s)"
  by (auto simp: load_pdf_def alloc_all_def split: sum.splits prod.splits)

theorem load_pdf_failure_resets_ready_witness:
  "load_pdf demo_env loaded_heap loaded_session ''b.pdf'' =
     (Inl (Exn ''FileNotFoundError'' (''Le fichier b.pdf n'' @ [CHR 0x27] @ ''existe pas'')),
      loaded_heap, loaded_session\<lparr>is_ready := False\<rparr>)"
proof -
  have p: "pdf_processor loaded_session = pdf_processor demo_session"
    by (simp add: loaded_session_eq)
  from load_pdf_failure_resets_ready
    [of loaded_session demo_env "''b.pdf''" _ loaded_heap]
    demo_process_missing
  show ?thesis unfolding p by blast
qed

text \<open>
  Claim C1 as stated fails: a session made ready by loading \<open>a.pdf\<close> is not ready any
  more after a failed load of a missing file.
\<close>

theorem load_pdf_keeps_ready_counterexample:
  "is_ready loaded_session
   \<and> fst (load_pdf demo_env loaded_heap loaded_session ''b.pdf'') =
       Inl (Exn ''FileNotFoundError'' (''Le fichier b.pdf n'' @ [CHR 0x27] @ ''existe pas''))
   \<and> is_ready (snd (snd (load_pdf demo_env loaded_heap loaded_session ''b.pdf'')))
       \<noteq> is_ready loaded_session"
proof -
  have p: "pdf_processor loaded_session = pdf_processor demo_session"
    by (simp add: loaded_session_eq)
  have r: "is_ready loaded_session" by (simp add: loaded_session_eq)
  have "load_pdf demo_env loaded_heap loaded_session ''b.pdf'' =
     (Inl (Exn ''FileNotFoundError'' (''Le fichier b.pdf n'' @ [CHR 0x27] @ ''existe pas'')),
      loaded_heap, loaded_session\<lparr>is_ready := False\<rparr>)"
    by (simp add: load_pdf_def p demo_process_missing)
  with r show ?thesis by simp
qed

text \<open>
  Claim C2, as amended. \<open>load_index\<close> does not compare model identifiers: when both files
  exist and deserialize it succeeds and adopts the stored chunks, identifier and dimension
  in place of the live ones; an exception it returns is a \<open>FileNotFoundError\<close> of its own
  or the exception of reading one of the two files.
\<close>

theorem load_index_adopts_stored_model:
  "(read_index ev (filepath @ ''.faiss'') = Some (Inr ix)
      \<and> read_pickle ev (filepath @ ''.pkl'') = Some (Inr md) \<longrightarrow>
      load_index ev h vs filepath =
        (Inr (), h @ md_chunks md,
         vs\<lparr>index := Some ix, chunks := [length h ..< length h + length (md_chunks md)],
            model_name := md_model_name md, dimension := md_dimension md\<rparr>))
   \<and> (fst (load_index ev h vs filepath) = Inl e \<longrightarrow>
        exn_class e = ''FileNotFoundError''
        \<or> read_index ev (filepath @ ''.faiss'') = Some (Inl e)
        \<or> read_pickle ev (filepath @ ''.pkl'') = Some (Inl e))"
  by (auto simp: load_index_def alloc_all_def split: option.splits sum.splits)

theorem load_index_adopts_stored_model_witness:
  "load_index demo_env [] (new_vector_store ''B'') ''saved'' =
     (Inr (), [demo_chunk 0],
      \<lparr>model_name = ''A'', embedding_model = None,
       index = Some \<lparr>index_d = 1, index_vectors = [[1]]\<rparr>, chunks = [0],
       dimension = Some 1\<rparr>)"
  using load_index_adopts_stored_model
    [of demo_env "''saved''" "\<lparr>index_d = 1, index_vectors = [[1]]\<rparr>"
        "\<lparr>md_chunks = [demo_chunk 0], md_model_name = ''A'', md_dimension = Some 1\<rparr>"
        "[]" "new_vector_store ''B''"]
  by (simp add: demo_env_def new_vector_store_def)

text \<open>
  Claim C2 as stated fails: a store configured for model \<open>B\<close> restores an index saved
  with model \<open>A\<close> without an error, and ends up with identifier \<open>A\<close>.
\<close>

theorem load_index_mismatch_counterexample:
  "model_name (new_vector_store ''B'') = ''B''
   \<and> read_pickle demo_env ''saved.pkl'' =
       Some (Inr \<lparr>md_chunks = [demo_chunk 0], md_model_name = ''A'', md_dimension = Some 1\<rparr>)
   \<and> fst (load_index demo_env [] (new_vector_store ''B'') ''saved'') = Inr ()
   \<and> model_name (snd (snd (load_index demo_env [] (new_vector_store ''B'') ''saved''))) = ''A''"
  by (simp add: load_index_def demo_env_def new_vector_store_def alloc_all_def)

text \<open>
  Claim C8, as amended. While no document is loaded, \<open>generate_answer\<close> answers the fixed
  response with no sources and the tag \<open>no_pdf_loaded\<close>, and leaves the store of objects
  and the session (index and generation backend included) as they were.
\<close>

theorem generate_answer_not_ready:
  "\<not> is_ready s \<Longrightarrow>
   generate_answer ev h s question k =
     (\<lparr>answer = ''Aucun PDF charg'' @ [CHR 0xE9] @ ''. Veuillez d'' @ [CHR 0x27]
               @ ''abord charger un document.'',
       sources = [], error = Some ''no_pdf_loaded'', question_echo = None, status = None\<rparr>,
      h, s)"
  by (simp add: generate_answer_def no_pdf_response_def)

theorem generate_answer_not_ready_witness:
  "\<not> is_ready demo_session
   \<and> error (fst (generate_answer demo_env [] demo_session ''why?'' 3)) = Some ''no_pdf_loaded''
   \<and> snd (generate_answer demo_env [] demo_session ''why?'' 3) = ([], demo_session)"
proof -
  have n: "\<not> is_ready demo_session" by (simp add: demo_session_def new_rag_system_def)
  from generate_answer_not_ready [OF n, of demo_env "[]" "''why?''" 3] n
  show ?thesis by simp
qed

text \<open>
  Claim C8 as stated fails on the tag: the response of a session that is not ready is not
  tagged \<open>no_document_loaded\<close>.
\<close>

theorem generate_answer_tag_counterexample:
  "\<not> is_ready demo_session
   \<and> error (fst (generate_answer demo_env [] demo_session ''why?'' 3))
       \<noteq> Some ''no_document_loaded''"
  by (simp add: generate_answer_def no_pdf_response_def demo_session_def new_rag_system_def)

section \<open>Search: bounds, order and copies\<close>

lemma py_index_in_set: "py_index xs i = Inr a \<Longrightarrow> a \<in> set xs"
  by (auto simp: py_index_def Let_def split: if_splits)

lemma py_index_nonneg: "0 \<le> i \<Longrightarrow> i < int (length xs) \<Longrightarrow> py_index xs i = Inr (xs ! nat i)"
  by (simp add: py_index_def Let_def)

lemma collect_results_padding:
  "list_all (\<lambda>r. snd r = - 1) rows \<Longrightarrow> collect_results h cs rows acc = (Inr acc, h)"
  by (induction rows arbitrary: h acc) auto

lemma collect_results_Inr:
  assumes "\<forall>a\<in>set cs. a < length h"
    and "collect_results h cs rows acc = (Inr results, h')"
  shows "\<exists>ext. h' = h @ ext
      \<and> results = acc @ zip [length h ..< length h + length ext]
                           (map fst (filter (\<lambda>r. snd r \<noteq> - 1) rows))
      \<and> list_all2 (\<lambda>c r. \<exists>a\<in>set cs. py_index cs (snd r) = Inr a \<and> c = h ! a)
           ext (filter (\<lambda>r. snd r \<noteq> - 1) rows)"
  using assms
proof (induction rows arbitrary: h acc)
  case Nil
  then show ?case by simp
next
  case (Cons row rows)
  obtain score idx where row: "row = (score, idx)" by (cases row)
  show ?case
  proof (cases "idx = - 1")
    case True
    with Cons.prems row have "collect_results h cs rows acc = (Inr results, h')" by simp
    from Cons.IH [OF Cons.prems(1) this] True row show ?thesis by simp
  next
    case False
    with Cons.prems(2) row obtain a where a: "py_index cs idx = Inr a"
      by (auto split: sum.splits)
    then have ain: "a \<in> set cs" by (rule py_index_in_set)
    let ?h1 = "h @ [h ! a]"
    from Cons.prems(2) row False a
    have c: "collect_results ?h1 cs rows (acc @ [(length h, score)]) = (Inr results, h')"
      by simp
    from Cons.prems(1) have wf1: "\<forall>a\<in>set cs. a < length ?h1" by auto
    from Cons.IH [OF wf1 c] obtain ext1 where
      e1: "h' = ?h1 @ ext1"
      and e2: "results = (acc @ [(length h, score)])
                 @ zip [length ?h1 ..< length ?h1 + length ext1]
                     (map fst (filter (\<lambda>r. snd r \<noteq> - 1) rows))"
      and e3: "list_all2 (\<lambda>c r. \<exists>a\<in>set cs. py_index cs (snd r) = Inr a \<and> c = ?h1 ! a)
           ext1 (filter (\<lambda>r. snd r \<noteq> - 1) rows)"
      by blast
    have same: "?h1 ! b = h ! b" if "b \<in> set cs" for b
      using that Cons.prems(1) by (simp add: nth_append)
    from e3 have e3': "list_all2 (\<lambda>c r. \<exists>a\<in>set cs. py_index cs (snd r) = Inr a \<and> c = h ! a)
           ext1 (filter (\<lambda>r. snd r \<noteq> - 1) rows)"
      by (rule list_all2_mono) (auto simp: same)
    have u: "[length h ..< length h + length ((h ! a) # ext1)]
           = length h # [length ?h1 ..< length ?h1 + length ext1]"
      by (subst upt_rec) simp
    show ?thesis
    proof (intro exI [of _ "(h ! a) # ext1"] conjI)
      show "h' = h @ (h ! a) # ext1" using e1 by simp
      show "results = acc @ zip [length h ..< length h + length ((h ! a) # ext1)]
                           (map fst (filter (\<lambda>r. snd r \<noteq> - 1) (row # rows)))"
        unfolding u using e2 row False by simp
      show "list_all2 (\<lambda>c r. \<exists>a\<in>set cs. py_index cs (snd r) = Inr a \<and> c = h ! a)
           ((h ! a) # ext1) (filter (\<lambda>r. snd r \<noteq> - 1) (row # rows))"
        using e3' row False a ain by auto
    qed
  qed
qed

lemma load_embedding_model_frame:
  "load_embedding_model ev vs = (r, vs1) \<Longrightarrow>
   chunks vs1 = chunks vs \<and> index vs1 = index vs \<and> model_name vs1 = model_name vs"
  by (auto simp: load_embedding_model_def split: option.splits sum.splits)

lemma load_embedding_model_loaded:
  "load_embedding_model ev vs = (Inr u, vs1) \<Longrightarrow>
   embedding_model vs1 \<noteq> None \<and> load_embedding_model ev vs1 = (Inr (), vs1)"
  by (auto simp: load_embedding_model_def split: option.splits sum.splits)

lemma search_Inr:
  assumes "search ev h vs query k = (Inr results, h', vs')"
  shows "\<exists>ix qv row rows. index vs = Some ix
     \<and> load_embedding_model ev vs = (Inr (), vs')
     \<and> encode_with ev vs' [query] = Inr (Array2 (index_d ix) qv)
     \<and> faiss_search ev ix (map normalize_L2 qv) k = Inr (row # rows)
     \<and> collect_results h (chunks vs) row [] = (Inr results, h')"
proof -
  from assms obtain ix where ix: "index vs = Some ix"
    by (auto simp: search_def split: option.splits)
  obtain r vs1 where l: "load_embedding_model ev vs = (r, vs1)" by (cases "load_embedding_model ev vs")
  from load_embedding_model_frame [OF l] have f: "chunks vs1 = chunks vs" by simp
  from assms ix l obtain x where r: "r = Inr ()" and vs1: "vs1 = vs'"
    and enc: "encode_with ev vs1 [query] = Inr x"
    by (auto simp: search_def split: sum.splits list.splits prod.splits)
  from assms ix l r enc obtain y where n: "normalize_L2_array x = Inr y"
    by (auto simp: search_def split: sum.splits list.splits prod.splits)
  from assms ix l r enc n obtain row rows where isr: "index_search ev ix y k = Inr (row # rows)"
    and cr: "collect_results h (chunks vs1) row [] = (Inr results, h')"
    by (auto simp: search_def split: sum.splits list.splits prod.splits)
  from n obtain d qv where x: "x = Array2 d qv" and y: "y = Array2 d (map normalize_L2 qv)"
    by (cases x) auto
  from isr have d: "d = index_d ix"
    and fs: "faiss_search ev ix (map normalize_L2 qv) k = Inr (row # rows)"
    unfolding y by (auto split: if_splits)
  from ix l r vs1 enc x d fs cr f show ?thesis by auto
qed

lemma map_nth_appended: "map ((!) (h @ ext)) [length h ..< length h + length ext] = ext"
  by (rule nth_equalityI) (simp_all add: nth_append)

lemma valid_ids_bounded:
  assumes "distinct ids" and "\<forall>i\<in>set ids. 0 \<le> i \<and> i < int n"
  shows "length ids \<le> n"
proof -
  from assms(2) have "set ids \<subseteq> {0 ..< int n}" by auto
  then have "card (set ids) \<le> card {0 ..< int n}" by (intro card_mono) simp_all
  with assms(1) show ?thesis by (simp add: distinct_card)
qed

lemma flat_ip_row_valid:
  assumes "flat_ip_row ix q k row"
  shows "int (length (filter (\<lambda>r. snd r \<noteq> - 1) row)) \<le> min k (int (ntotal ix))"
    and "sorted_wrt (\<lambda>s t. t \<le> s) (map fst (filter (\<lambda>r. snd r \<noteq> - 1) row))"
    and "\<forall>r\<in>set (filter (\<lambda>r. snd r \<noteq> - 1) row). 0 \<le> snd r \<and> snd r < int (ntotal ix)"
proof -
  let ?valid = "filter (\<lambda>r. snd r \<noteq> - 1) row"
  let ?ids = "filter (\<lambda>i. i \<noteq> - 1) (map snd row)"
  from assms have len: "int (length row) = k"
    and rng: "list_all (\<lambda>r. snd r = - 1
                      \<or> (0 \<le> snd r \<and> snd r < int (ntotal ix)
                          \<and> fst r = inner_product (index_vectors ix ! nat (snd r)) q)) row"
    and dis: "distinct ?ids"
    and srt: "sorted_wrt (\<lambda>s t. t \<le> s) (map fst ?valid)"
    by (simp_all add: flat_ip_row_def)
  show "sorted_wrt (\<lambda>s t. t \<le> s) (map fst ?valid)" by (rule srt)
  from rng show v: "\<forall>r\<in>set ?valid. 0 \<le> snd r \<and> snd r < int (ntotal ix)"
    by (auto simp: list_all_iff)
  have ids: "?ids = map snd ?valid" by (simp add: filter_map comp_def)
  from v have "\<forall>i\<in>set ?ids. 0 \<le> i \<and> i < int (ntotal ix)" unfolding ids by auto
  from valid_ids_bounded [OF dis this] have "length ?valid \<le> ntotal ix" unfolding ids by simp
  moreover have "length ?valid \<le> length row" by (rule length_filter_le)
  ultimately show "int (length ?valid) \<le> min k (int (ntotal ix))" using len by linarith
qed

lemma contract_first_row:
  assumes "backend_contract ev" and "faiss_search ev ix (map normalize_L2 qv) k = Inr (row # rows)"
  shows "\<exists>v vs. qv = v # vs \<and> flat_ip_row ix (normalize_L2 v) k row"
proof -
  from assms have "list_all2 (\<lambda>q row. flat_ip_row ix q k row) (map normalize_L2 qv) (row # rows)"
    unfolding backend_contract_def by blast
  then show ?thesis by (cases qv) simp_all
qed

text \<open>
  Claim C6, as amended. When the backends keep their contract, \<open>search\<close> returns at most
  \<open>min(k, ntotal)\<close> results, in descending order of score; they are the rows that the
  index returned for the normalised query embedding, in that order and without the padding:
  each score is the inner product of the query and the stored vector at the row's position,
  and each chunk is a copy of the stored chunk at that position. The code does not order
  results of equal score.
\<close>

theorem search_bounded_in_index_order:
  assumes contract: "backend_contract ev"
    and wf: "\<forall>a\<in>set (chunks vs). a < length h"
    and ix: "index vs = Some ix"
    and s: "search ev h vs query k = (Inr results, h', vs')"
  shows "int (length results) \<le> min k (int (ntotal ix))
    \<and> sorted_wrt (\<lambda>s t. t \<le> s) (map snd results)
    \<and> (\<exists>v qv row rows. encode_with ev vs' [query] = Inr (Array2 (index_d ix) (v # qv))
          \<and> faiss_search ev ix (map normalize_L2 (v # qv)) k = Inr (row # rows)
          \<and> flat_ip_row ix (normalize_L2 v) k row
          \<and> map snd results = map fst (filter (\<lambda>r. snd r \<noteq> - 1) row)
          \<and> map (\<lambda>r. h' ! fst r) results =
              map (\<lambda>r. h ! (chunks vs ! nat (snd r))) (filter (\<lambda>r. snd r \<noteq> - 1) row))"
proof -
  from search_Inr [OF s] ix obtain qv0 row rows where
    enc: "encode_with ev vs' [query] = Inr (Array2 (index_d ix) qv0)"
    and fs0: "faiss_search ev ix (map normalize_L2 qv0) k = Inr (row # rows)"
    and cr: "collect_results h (chunks vs) row [] = (Inr results, h')"
    by auto
  let ?valid = "filter (\<lambda>r. snd r \<noteq> - 1) row"
  from contract_first_row [OF contract fs0] obtain v qv where
    qv0: "qv0 = v # qv" and row: "flat_ip_row ix (normalize_L2 v) k row"
    by blast
  from enc fs0 have enc': "encode_with ev vs' [query] = Inr (Array2 (index_d ix) (v # qv))"
    and fs: "faiss_search ev ix (map normalize_L2 (v # qv)) k = Inr (row # rows)"
    unfolding qv0 by simp_all
  from collect_results_Inr [OF wf cr] obtain ext where
    h': "h' = h @ ext"
    and res: "results = zip [length h ..< length h + length ext] (map fst ?valid)"
    and rel: "list_all2 (\<lambda>c r. \<exists>a\<in>set (chunks vs). py_index (chunks vs) (snd r) = Inr a \<and> c = h ! a)
           ext ?valid"
    by auto
  from rel have len: "length ext = length ?valid" by (rule list_all2_lengthD)
  from res len have scores: "map snd results = map fst ?valid" by simp
  from res len have addrs: "map fst results = [length h ..< length h + length ext]" by simp
  from scores have "length results = length ?valid"
    by (metis length_map)
  with flat_ip_row_valid(1) [OF row]
  have bound: "int (length results) \<le> min k (int (ntotal ix))" by simp
  from flat_ip_row_valid(2) [OF row] scores
  have sorted: "sorted_wrt (\<lambda>s t. t \<le> s) (map snd results)" by simp
  have "map (\<lambda>r. h' ! fst r) results = map ((!) h') (map fst results)" by simp
  also have "\<dots> = ext" unfolding addrs h' by (rule map_nth_appended)
  also have "ext = map (\<lambda>r. h ! (chunks vs ! nat (snd r))) ?valid"
  proof (rule nth_equalityI)
    show "length ext = length (map (\<lambda>r. h ! (chunks vs ! nat (snd r))) ?valid)"
      using len by simp
    fix i assume i: "i < length ext"
    with len have iv: "i < length ?valid" by simp
    from rel i obtain a where a: "py_index (chunks vs) (snd (?valid ! i)) = Inr a"
      and e: "ext ! i = h ! a"
      by (auto simp: list_all2_conv_all_nth)
    from flat_ip_row_valid(3) [OF row] iv have nn: "0 \<le> snd (?valid ! i)"
      using nth_mem by blast
    from a nn have "a = chunks vs ! nat (snd (?valid ! i))"
      by (auto simp: py_index_def Let_def split: if_splits)
    with e iv show "ext ! i = map (\<lambda>r. h ! (chunks vs ! nat (snd r))) ?valid ! i" by simp
  qed
  finally have vals: "map (\<lambda>r. h' ! fst r) results =
      map (\<lambda>r. h ! (chunks vs ! nat (snd r))) ?valid" .
  from bound sorted enc' fs row scores vals show ?thesis by blast
qed

lemma sorted_wrt_constant: "\<forall>x\<in>set xs. x = (c::real) \<Longrightarrow> sorted_wrt (\<lambda>s t. t \<le> s) xs"
  by (induction xs) auto

lemma sorted_desc_by_negation:
  "sorted (map (\<lambda>r. - fst r) xs) \<Longrightarrow> sorted_wrt (\<lambda>s t. t \<le> s) (map fst (xs :: (real \<times> int) list))"
  by (induction xs) auto

lemma flat_rank_props:
  shows "set (flat_rank ix q) =
           (\<lambda>i. (inner_product (index_vectors ix ! i) q, int i)) ` {0 ..< ntotal ix}"
    and "distinct (map snd (flat_rank ix q))"
    and "sorted_wrt (\<lambda>s t. t \<le> s) (map fst (flat_rank ix q))"
proof -
  let ?xs = "map (\<lambda>i. (inner_product (index_vectors ix ! i) q, int i)) (rev [0 ..< ntotal ix])"
  show "set (flat_rank ix q) =
           (\<lambda>i. (inner_product (index_vectors ix ! i) q, int i)) ` {0 ..< ntotal ix}"
    unfolding flat_rank_def by simp
  have "distinct (map snd ?xs)" by (simp add: comp_def distinct_map)
  then have "distinct ?xs \<and> inj_on snd (set ?xs)" by (simp only: distinct_map)
  then have "distinct (sort_key (\<lambda>r. - fst r) ?xs)
      \<and> inj_on snd (set (sort_key (\<lambda>r. - fst r) ?xs))"
    by (simp only: distinct_sort set_sort)
  then show "distinct (map snd (flat_rank ix q))"
    unfolding flat_rank_def by (simp only: distinct_map)
  have "sorted (map (\<lambda>r. - fst r) (flat_rank ix q))"
    unfolding flat_rank_def by (rule sorted_sort_key)
  then show "sorted_wrt (\<lambda>s t. t \<le> s) (map fst (flat_rank ix q))"
    by (rule sorted_desc_by_negation)
qed

lemma flat_row:
  assumes "0 < k"
  shows "flat_ip_row ix q k (take (nat k) (flat_rank ix q @ replicate (nat k) (- 1, - 1)))"
proof -
  let ?L = "flat_rank ix q"
  let ?R = "take (nat k) (?L @ replicate (nat k) (- 1, - 1))"
  have R: "?R = take (nat k) ?L @ replicate (nat k - length ?L) (- 1, - 1)"
    by simp
  have len: "int (length ?R) = k" using assms by simp
  have L: "0 \<le> snd r \<and> snd r < int (ntotal ix)
        \<and> fst r = inner_product (index_vectors ix ! nat (snd r)) q" if "r \<in> set ?L" for r
    using that unfolding flat_rank_props(1) by auto
  have valid: "filter (\<lambda>r. snd r \<noteq> - 1) ?R = take (nat k) ?L"
  proof -
    have "filter (\<lambda>r. snd r \<noteq> - 1) (take (nat k) ?L) = take (nat k) ?L"
      by (rule filter_True) (use L in \<open>force dest!: in_set_takeD\<close>)
    then show ?thesis unfolding R by simp
  qed
  have rng: "list_all (\<lambda>r. snd r = - 1
                      \<or> (0 \<le> snd r \<and> snd r < int (ntotal ix)
                          \<and> fst r = inner_product (index_vectors ix ! nat (snd r)) q)) ?R"
    unfolding R using L by (auto simp: list_all_iff dest!: in_set_takeD)
  have "filter (\<lambda>i. i \<noteq> - 1) (map snd ?R) = map snd (filter (\<lambda>r. snd r \<noteq> - 1) ?R)"
    by (simp only: filter_map comp_def)
  also have "\<dots> = take (nat k) (map snd ?L)"
    unfolding valid by (simp add: take_map)
  finally have ids: "filter (\<lambda>i. i \<noteq> - 1) (map snd ?R) = take (nat k) (map snd ?L)" .
  have dis: "distinct (filter (\<lambda>i. i \<noteq> - 1) (map snd ?R))"
    unfolding ids by (intro distinct_take flat_rank_props(2))
  have "sorted_wrt (\<lambda>s t. t \<le> s) (take (nat k) (map fst ?L))"
    by (intro sorted_wrt_take flat_rank_props(3))
  then have srt: "sorted_wrt (\<lambda>s t. t \<le> s) (map fst (filter (\<lambda>r. snd r \<noteq> - 1) ?R))"
    unfolding valid by (simp add: take_map)
  from len rng dis srt show ?thesis unfolding flat_ip_row_def by blast
qed

lemma demo_backend_contract: "backend_contract demo_env"
  unfolding backend_contract_def
proof (intro allI impI)
  fix ix qs k rows
  assume "faiss_search demo_env ix qs k = Inr rows"
  then have k: "0 < k" and rows: "rows = map (\<lambda>q. take (nat k)
                         (flat_rank ix q @ replicate (nat k) (- 1, - 1))) qs"
    by (auto simp: demo_env_def flat_search_def split: if_splits)
  show "list_all2 (\<lambda>q row. flat_ip_row ix q k row) qs rows"
    unfolding rows using flat_row [OF k, of ix] by (simp add: list_all2_conv_all_nth)
qed

lemma flat_rank_two:
  "flat_rank \<lparr>index_d = d, index_vectors = [[1], [1]]\<rparr> [1] = [(1, 1), (1, 0)]"
  by (simp add: flat_rank_def ntotal_def inner_product_def upt_rec [of 0] upt_rec [of 1])

lemma flat_rank_one:
  "flat_rank \<lparr>index_d = d, index_vectors = [[1]]\<rparr> [1] = [(1, 0)]"
  by (simp add: flat_rank_def ntotal_def inner_product_def)

lemma flat_rank_none: "flat_rank \<lparr>index_d = d, index_vectors = []\<rparr> q = []"
  by (simp add: flat_rank_def ntotal_def)

lemma two_chunk_store_eq:
  "two_chunk_store =
     \<lparr>model_name = ''E'', embedding_model = Some ''E'',
      index = Some \<lparr>index_d = 1, index_vectors = [[1], [1]]\<rparr>, chunks = [0, 1],
      dimension = Some 1\<rparr>"
  by (simp add: two_chunk_store_def build_index_def create_embeddings_def
      load_embedding_model_def encode_with_def new_vector_store_def demo_env_def normalize_unit
      two_chunks_def)

lemma two_chunk_search:
  "search demo_env two_chunks two_chunk_store ''q'' 2 =
     (Inr [(2, 1), (3, 1)], [demo_chunk 0, demo_chunk 1, demo_chunk 1, demo_chunk 0],
      two_chunk_store)"
  unfolding two_chunk_store_eq
  by (simp add: search_def load_embedding_model_def encode_with_def demo_env_def flat_search_def
      normalize_unit flat_rank_two two_chunks_def py_index_def)

text \<open>
  Claim C6 as stated fails on the tie-break: with an exhaustive inner-product search and
  two stored chunks of equal score, the chunk with id 1 is returned before the chunk with
  id 0.
\<close>

theorem search_tie_break_counterexample:
  "backend_contract demo_env
   \<and> search demo_env two_chunks two_chunk_store ''q'' 2 =
       (Inr [(2, 1), (3, 1)], [demo_chunk 0, demo_chunk 1, demo_chunk 1, demo_chunk 0],
        two_chunk_store)
   \<and> \<not> ranked [demo_chunk 0, demo_chunk 1, demo_chunk 1, demo_chunk 0] [(2, 1), (3, 1)]"
  using demo_backend_contract two_chunk_search
  by (simp add: ranked_def demo_chunk_def)

theorem search_bounded_in_index_order_witness:
  "backend_contract demo_env
   \<and> search demo_env two_chunks two_chunk_store ''q'' 2 =
       (Inr [(2, 1), (3, 1)], [demo_chunk 0, demo_chunk 1, demo_chunk 1, demo_chunk 0],
        two_chunk_store)
   \<and> int (length [(2::nat, 1::real), (3, 1)])
       \<le> min 2 (int (ntotal \<lparr>index_d = 1, index_vectors = [[1], [1]]\<rparr>))
   \<and> sorted_wrt (\<lambda>s t. t \<le> s) (map snd [(2::nat, 1::real), (3, 1)])"
proof -
  have wf: "\<forall>a\<in>set (chunks two_chunk_store). a < length two_chunks"
    by (simp add: two_chunk_store_eq two_chunks_def)
  have ix: "index two_chunk_store = Some \<lparr>index_d = 1, index_vectors = [[1], [1]]\<rparr>"
    by (simp add: two_chunk_store_eq)
  from search_bounded_in_index_order [OF demo_backend_contract wf ix two_chunk_search]
    demo_backend_contract two_chunk_search
  show ?thesis by blast
qed

lemma build_index_empty_by_shape:
  assumes load: "load_embedding_model ev (vs\<lparr>chunks := []\<rparr>) = (Inr (), vs1)"
    and dim: "dimension vs1 = Some d"
  shows "encode_with ev vs1 [] = Inr (Array1 xs) \<Longrightarrow>
           build_index ev h [] vs =
             (Inl (Exn ''IndexError'' ''tuple index out of range''),
              vs1\<lparr>index := Some \<lparr>index_d = d, index_vectors = []\<rparr>\<rparr>)"
    and "encode_with ev vs1 [] = Inr (Array2 d []) \<Longrightarrow>
           build_index ev h [] vs =
             (Inr (), vs1\<lparr>index := Some \<lparr>index_d = d, index_vectors = []\<rparr>\<rparr>)"
  by (simp_all add: build_index_def create_embeddings_def load dim)

lemma demo_process_blank:
  "process_pdf (pdf_processor demo_session) demo_env ''blank.pdf'' =
     Inr \<lparr>raw_text = [], cleaned_text = [], result_chunks = [], success = False\<rparr>"
  by code_simp

text \<open>
  Claim C3. The code does not do what the claim asks for. \<open>build_index\<close> hands the
  result of \<open>encode\<close> on the empty list to \<open>faiss.normalize_L2\<close> without a guard. With
  an embedding model that answers the empty array of one dimension for the empty list, as
  \<open>encode\<close> of a \<open>SentenceTransformer\<close> does, \<open>build_index\<close> on no chunks raises
  \<open>IndexError\<close> after it has assigned a new empty index; a document without text gives
  \<open>process_pdf\<close> no chunks, and \<open>load_pdf\<close> of it raises the same exception and leaves
  the session not ready.
\<close>

theorem build_index_empty_raises:
  "st_encode demo_env ''E'' [] = Inr (Array1 [])
   \<and> build_index demo_env [] [] (new_vector_store ''E'') =
       (Inl (Exn ''IndexError'' ''tuple index out of range''),
        \<lparr>model_name = ''E'', embedding_model = Some ''E'',
         index = Some \<lparr>index_d = 1, index_vectors = []\<rparr>, chunks = [], dimension = Some 1\<rparr>)
   \<and> process_pdf (pdf_processor demo_session) demo_env ''blank.pdf'' =
       Inr \<lparr>raw_text = [], cleaned_text = [], result_chunks = [], success = False\<rparr>
   \<and> load_pdf demo_env [] demo_session ''blank.pdf'' =
       (Inl (Exn ''IndexError'' ''tuple index out of range''), [],
        demo_session\<lparr>vector_store :=
            \<lparr>model_name = ''E'', embedding_model = Some ''E'',
             index = Some \<lparr>index_d = 1, index_vectors = []\<rparr>, chunks = [],
             dimension = Some 1\<rparr>,
          is_ready := False\<rparr>)"
proof -
  let ?vs1 = "\<lparr>model_name = ''E'', embedding_model = Some ''E'', index = None, chunks = [],
               dimension = Some 1\<rparr>"
  let ?vs2 = "\<lparr>model_name = ''E'', embedding_model = Some ''E'',
               index = Some \<lparr>index_d = 1, index_vectors = []\<rparr>, chunks = [],
               dimension = Some 1\<rparr>"
  let ?e = "Exn ''IndexError'' ''tuple index out of range''"
  have enc0: "st_encode demo_env ''E'' [] = Inr (Array1 [])"
    by (simp add: demo_env_def)
  have load: "load_embedding_model demo_env ((new_vector_store ''E'')\<lparr>chunks := []\<rparr>) = (Inr (), ?vs1)"
    by (simp add: load_embedding_model_def new_vector_store_def demo_env_def)
  have dim: "dimension ?vs1 = Some 1" by simp
  have enc: "encode_with demo_env ?vs1 [] = Inr (Array1 [])"
    by (simp add: encode_with_def enc0)
  have b: "build_index demo_env [] [] (new_vector_store ''E'') = (Inl ?e, ?vs2)"
    using build_index_empty_by_shape(1) [OF load dim enc, of "[]"] by simp
  have vs: "vector_store demo_session = new_vector_store ''E''"
    by (simp add: demo_session_def new_rag_system_def)
  have l: "load_pdf demo_env [] demo_session ''blank.pdf'' =
       (Inl ?e, [], demo_session\<lparr>vector_store := ?vs2, is_ready := False\<rparr>)"
    by (simp add: load_pdf_def demo_process_blank alloc_all_def vs b)
  from enc0 b demo_process_blank l show ?thesis by (intro conjI)
qed

lemma collect_results_success_indep:
  "collect_results h cs rows acc = (Inr results, h') \<Longrightarrow>
   \<exists>results2 g'. collect_results g cs rows acc2 = (Inr results2, g')"
proof (induction rows arbitrary: h acc g acc2)
  case Nil
  then show ?case by simp
next
  case (Cons row rows)
  obtain score idx where row: "row = (score, idx)" by (cases row)
  show ?case
  proof (cases "idx = - 1")
    case True
    with Cons.prems row have "collect_results h cs rows acc = (Inr results, h')" by simp
    from Cons.IH [OF this, of g acc2] True row show ?thesis by simp
  next
    case False
    with Cons.prems row obtain a where a: "py_index cs idx = Inr a"
      by (auto split: sum.splits)
    with Cons.prems row False
    have "collect_results (h @ [h ! a]) cs rows (acc @ [(length h, score)]) = (Inr results, h')"
      by simp
    from Cons.IH [OF this, of "g @ [g ! a]" "acc2 @ [(length g, score)]"] False row a
    show ?thesis by simp
  qed
qed

lemma result_values_fresh:
  "length scores = length ext \<Longrightarrow>
   result_values (h @ ext) (zip [length h ..< length h + length ext] scores) = zip ext scores"
  unfolding result_values_def by (rule nth_equalityI) (simp_all add: nth_append)

lemma collect_results_rerun:
  assumes wf: "\<forall>a\<in>set cs. a < length h"
    and agree: "\<forall>a\<in>set cs. a < length g \<and> g ! a = h ! a"
    and run: "collect_results h cs rows [] = (Inr results, h')"
  shows "\<exists>results2 g'. collect_results g cs rows [] = (Inr results2, g')
     \<and> result_values g' results2 = result_values h' results"
proof -
  let ?valid = "filter (\<lambda>r. snd r \<noteq> - 1) rows"
  from collect_results_success_indep [OF run, of g "[]"]
  obtain results2 g' where run2: "collect_results g cs rows [] = (Inr results2, g')" by blast
  from agree have wfg: "\<forall>a\<in>set cs. a < length g" by blast
  from collect_results_Inr [OF wf run] obtain ext where
    h': "h' = h @ ext"
    and res: "results = zip [length h ..< length h + length ext] (map fst ?valid)"
    and rel: "list_all2 (\<lambda>c r. \<exists>a\<in>set cs. py_index cs (snd r) = Inr a \<and> c = h ! a) ext ?valid"
    by auto
  from collect_results_Inr [OF wfg run2] obtain ext2 where
    g': "g' = g @ ext2"
    and res2: "results2 = zip [length g ..< length g + length ext2] (map fst ?valid)"
    and rel2: "list_all2 (\<lambda>c r. \<exists>a\<in>set cs. py_index cs (snd r) = Inr a \<and> c = g ! a) ext2 ?valid"
    by auto
  from rel have len: "length ext = length ?valid" by (rule list_all2_lengthD)
  from rel2 have len2: "length ext2 = length ?valid" by (rule list_all2_lengthD)
  have same: "ext2 = ext"
  proof (rule nth_equalityI)
    show "length ext2 = length ext" using len len2 by simp
    fix i assume i: "i < length ext2"
    with len len2 have i': "i < length ext" by simp
    from rel2 i obtain a where a: "a \<in> set cs" "py_index cs (snd (?valid ! i)) = Inr a"
      "ext2 ! i = g ! a"
      by (auto simp: list_all2_conv_all_nth)
    from rel i' obtain b where b: "py_index cs (snd (?valid ! i)) = Inr b" "ext ! i = h ! b"
      by (auto simp: list_all2_conv_all_nth)
    from a b agree show "ext2 ! i = ext ! i" by auto
  qed
  have "result_values g' results2 = zip ext2 (map fst ?valid)"
    unfolding g' res2 by (rule result_values_fresh) (simp add: len2)
  moreover have "result_values h' results = zip ext (map fst ?valid)"
    unfolding h' res by (rule result_values_fresh) (simp add: len)
  ultimately have "result_values g' results2 = result_values h' results" using same by simp
  with run2 show ?thesis by blast
qed

text \<open>
  Claim C10. The chunks in the results of \<open>search\<close> are new objects, each equal to a
  stored chunk: their addresses are not addresses of the stored sequence, the stored
  sequence reads the same after the search, it still reads the same after any returned
  chunk is overwritten, and the same search run after such a mutation returns the same
  chunk values and scores as the first one.
\<close>

theorem search_returns_copies:
  assumes wf: "\<forall>a\<in>set (chunks vs). a < length h"
    and s: "search ev h vs query k = (Inr results, h', vs')"
  shows "chunks vs' = chunks vs
    \<and> (\<forall>r\<in>set results. length h \<le> fst r \<and> fst r < length h' \<and> fst r \<notin> set (chunks vs)
          \<and> (\<exists>a\<in>set (chunks vs). h' ! fst r = h ! a))
    \<and> map ((!) h') (chunks vs') = map ((!) h) (chunks vs)
    \<and> (\<forall>r\<in>set results. \<forall>c.
          map ((!) (h'[fst r := c])) (chunks vs') = map ((!) h) (chunks vs)
          \<and> (\<exists>results2 h2. search ev (h'[fst r := c]) vs' query k = (Inr results2, h2, vs')
                \<and> result_values h2 results2 = result_values h' results))"
proof -
  from search_Inr [OF s] obtain ix qv row rows where
    ix: "index vs = Some ix"
    and lm: "load_embedding_model ev vs = (Inr (), vs')"
    and enc: "encode_with ev vs' [query] = Inr (Array2 (index_d ix) qv)"
    and fs: "faiss_search ev ix (map normalize_L2 qv) k = Inr (row # rows)"
    and cr: "collect_results h (chunks vs) row [] = (Inr results, h')"
    by blast
  let ?valid = "filter (\<lambda>r. snd r \<noteq> - 1) row"
  from load_embedding_model_frame [OF lm]
  have cs: "chunks vs' = chunks vs" and ix': "index vs' = Some ix" using ix by simp_all
  from load_embedding_model_loaded [OF lm]
  have lm': "load_embedding_model ev vs' = (Inr (), vs')" by simp
  from collect_results_Inr [OF wf cr] obtain ext where
    h': "h' = h @ ext"
    and res: "results = zip [length h ..< length h + length ext] (map fst ?valid)"
    and rel: "list_all2 (\<lambda>c r. \<exists>a\<in>set (chunks vs). py_index (chunks vs) (snd r) = Inr a \<and> c = h ! a)
           ext ?valid"
    by auto
  from rel have len: "length ext = length ?valid" by (rule list_all2_lengthD)
  have fresh: "length h \<le> fst r \<and> fst r < length h' \<and> fst r \<notin> set (chunks vs)
          \<and> (\<exists>a\<in>set (chunks vs). h' ! fst r = h ! a)" if r: "r \<in> set results" for r
  proof -
    obtain a0 sc where r0: "r = (a0, sc)" by (cases r)
    with r res have "(a0, sc) \<in> set (zip [length h ..< length h + length ext] (map fst ?valid))"
      by simp
    then have "a0 \<in> set [length h ..< length h + length ext]" by (rule set_zip_leftD)
    with r0 have "fst r \<in> set [length h ..< length h + length ext]" by simp
    then have lo: "length h \<le> fst r" and hi: "fst r < length h + length ext" by simp_all
    from lo wf have notin: "fst r \<notin> set (chunks vs)" by force
    from lo hi have "h' ! fst r = ext ! (fst r - length h)" and j: "fst r - length h < length ext"
      unfolding h' by (simp_all add: nth_append)
    moreover from rel j obtain a where "a \<in> set (chunks vs)" "ext ! (fst r - length h) = h ! a"
      by (auto simp: list_all2_conv_all_nth)
    ultimately have "\<exists>a\<in>set (chunks vs). h' ! fst r = h ! a" by auto
    with lo hi notin show ?thesis unfolding h' by simp
  qed
  have stored: "map ((!) h') (chunks vs') = map ((!) h) (chunks vs)"
    unfolding cs h' using wf by (simp add: nth_append)
  have mutate: "map ((!) (h'[fst r := c])) (chunks vs') = map ((!) h) (chunks vs)
          \<and> (\<exists>results2 h2. search ev (h'[fst r := c]) vs' query k = (Inr results2, h2, vs')
                \<and> result_values h2 results2 = result_values h' results)"
    if r: "r \<in> set results" for r c
  proof -
    from fresh [OF r] have lo: "length h \<le> fst r" and notin: "fst r \<notin> set (chunks vs)" by simp_all
    have agree: "\<forall>a\<in>set (chunks vs). a < length (h'[fst r := c]) \<and> (h'[fst r := c]) ! a = h ! a"
    proof
      fix a assume a: "a \<in> set (chunks vs)"
      with wf have lt: "a < length h" by blast
      from a notin have "a \<noteq> fst r" by blast
      then have "(h'[fst r := c]) ! a = h' ! a" by simp
      also have "\<dots> = h ! a" unfolding h' using lt by (simp add: nth_append)
      finally show "a < length (h'[fst r := c]) \<and> (h'[fst r := c]) ! a = h ! a"
        using lt unfolding h' by simp
    qed
    then have m: "map ((!) (h'[fst r := c])) (chunks vs') = map ((!) h) (chunks vs)"
      unfolding cs by simp
    from collect_results_rerun [OF wf agree cr] obtain results2 h2 where
      c2: "collect_results (h'[fst r := c]) (chunks vs) row [] = (Inr results2, h2)"
      and v2: "result_values h2 results2 = result_values h' results"
      by blast
    have "search ev (h'[fst r := c]) vs' query k = (Inr results2, h2, vs')"
      by (simp add: search_def ix' lm' enc fs cs c2)
    with m v2 show ?thesis by blast
  qed
  from cs fresh stored mutate show ?thesis by blast
qed

theorem search_returns_copies_witness:
  "search demo_env two_chunks two_chunk_store ''q'' 2 =
     (Inr [(2, 1), (3, 1)], [demo_chunk 0, demo_chunk 1, demo_chunk 1, demo_chunk 0],
      two_chunk_store)
   \<and> map ((!) ([demo_chunk 0, demo_chunk 1, demo_chunk 1, demo_chunk 0][2 := demo_chunk 7]))
        (chunks two_chunk_store) = map ((!) two_chunks) (chunks two_chunk_store)"
proof -
  have wf: "\<forall>a\<in>set (chunks two_chunk_store). a < length two_chunks"
    by (simp add: two_chunk_store_eq two_chunks_def)
  from search_returns_copies [OF wf two_chunk_search]
  have "\<forall>r\<in>set [(2::nat, 1::real), (3, 1)]. \<forall>c.
          map ((!) ([demo_chunk 0, demo_chunk 1, demo_chunk 1, demo_chunk 0][fst r := c]))
            (chunks two_chunk_store) = map ((!) two_chunks) (chunks two_chunk_store)"
    by blast
  then have "map ((!) ([demo_chunk 0, demo_chunk 1, demo_chunk 1, demo_chunk 0][2 := demo_chunk 7]))
        (chunks two_chunk_store) = map ((!) two_chunks) (chunks two_chunk_store)"
    by simp
  with two_chunk_search show ?thesis by simp
qed

text \<open>
  Claim C7. In a ready session, an exception raised while loading the generation backend,
  during retrieval or by the generation call, and more generally any exception of the body
  of the \<open>try\<close> block, is turned into a response: the answer is the fixed prefix followed
  by the exception message, the sources are empty and the tag is \<open>generation_error\<close>.
  \<open>generate_answer\<close> itself has a response as its value in every case.
\<close>

theorem generate_answer_catches:
  assumes "is_ready s"
  shows "(load_generation_model ev s = (Inl e, s1) \<longrightarrow>
            generate_answer ev h s question k = (generation_error_response e, h, s1))
    \<and> (load_generation_model ev s = (Inr (), s1)
          \<and> search ev h (vector_store s1) question k = (Inl e, h1, vs1) \<longrightarrow>
            generate_answer ev h s question k =
              (generation_error_response e, h1, s1\<lparr>vector_store := vs1\<rparr>))
    \<and> (load_generation_model ev s = (Inr (), s1)
          \<and> search ev h (vector_store s1) question k = (Inr results, h1, vs1) \<and> results \<noteq> []
          \<and> generator s1 = Some g
          \<and> pipeline_call ev g (create_prompt question h1 (map fst results)) = Inl e \<longrightarrow>
            generate_answer ev h s question k =
              (generation_error_response e, h1, s1\<lparr>vector_store := vs1\<rparr>))
    \<and> (answer_body ev h s question k = (Inl e, h2, s2) \<longrightarrow>
            generate_answer ev h s question k = (generation_error_response e, h2, s2))
    \<and> generation_error_response e =
         \<lparr>answer = ''Erreur lors de la g'' @ [CHR 0xE9] @ ''n'' @ [CHR 0xE9] @ ''ration: ''
                    @ exn_msg e,
          sources = [], error = Some ''generation_error'', question_echo = None, status = None\<rparr>"
  using assms
  by (simp add: generate_answer_def answer_body_def generation_error_response_def)

lemma loaded_search:
  "search demo_env loaded_heap (vector_store loaded_session) ''why?'' 3 =
     (Inr [(1, 1)], [demo_doc_chunk, demo_doc_chunk], vector_store loaded_session)"
  unfolding loaded_heap_eq loaded_session_eq
  by (simp add: search_def load_embedding_model_def encode_with_def demo_env_def flat_search_def
      normalize_unit flat_rank_one py_index_def eval_nat_numeral)

theorem generate_answer_catches_witness:
  "is_ready loaded_session
   \<and> generate_answer demo_env loaded_heap loaded_session ''why?'' 3 =
       (\<lparr>answer = ''Erreur lors de la g'' @ [CHR 0xE9] @ ''n'' @ [CHR 0xE9] @ ''ration: ''
                  @ ''out of memory'',
         sources = [], error = Some ''generation_error'', question_echo = None, status = None\<rparr>,
        [demo_doc_chunk, demo_doc_chunk],
        loaded_session\<lparr>generator := Some ''G''\<rparr>)"
proof -
  let ?s1 = "loaded_session\<lparr>generator := Some ''G''\<rparr>"
  let ?e = "Exn ''RuntimeError'' ''out of memory''"
  have r: "is_ready loaded_session" by (simp add: loaded_session_eq)
  have l: "load_generation_model demo_env loaded_session = (Inr (), ?s1)"
    by (simp add: load_generation_model_def loaded_session_eq demo_session_def
        new_rag_system_def demo_env_def)
  have vs: "vector_store ?s1 = vector_store loaded_session" by simp
  have srch: "search demo_env loaded_heap (vector_store ?s1) ''why?'' 3 =
     (Inr [(1, 1)], [demo_doc_chunk, demo_doc_chunk], vector_store loaded_session)"
    unfolding vs by (rule loaded_search)
  have g: "generator ?s1 = Some ''G''" by simp
  have call: "pipeline_call demo_env ''G''
        (create_prompt ''why?'' [demo_doc_chunk, demo_doc_chunk] (map fst [(1::nat, 1::real)])) = Inl ?e"
    by (simp add: demo_env_def)
  have upd: "?s1\<lparr>vector_store := vector_store loaded_session\<rparr> = ?s1" by simp
  from generate_answer_catches [OF r, of demo_env ?e ?s1 loaded_heap "''why?''" 3
      "[demo_doc_chunk, demo_doc_chunk]" "vector_store loaded_session" "[(1, 1)]" "''G''"]
    l srch g call
  have "generate_answer demo_env loaded_heap loaded_session ''why?'' 3 =
      (generation_error_response ?e, [demo_doc_chunk, demo_doc_chunk],
       ?s1\<lparr>vector_store := vector_store loaded_session\<rparr>)"
    by blast
  with r show ?thesis unfolding upd by (simp add: generation_error_response_def)
qed

end
